theory Spec2Isabelle
  imports Main "HOL-Library.Signed_Division" "HOL-Library.Char_ord"
begin

section \<open>Configuration constants (config.h)\<close>

definition PASSWORD :: string where
  "PASSWORD = ''1234''"

definition MAX_PASSWORD_LENGTH :: nat where
  "MAX_PASSWORD_LENGTH = 8"

definition ROWS :: nat where
  "ROWS = 4"

definition COLS :: nat where
  "COLS = 4"

definition OPEN_TIME_MS :: int where
  "OPEN_TIME_MS = 10000"

definition LOCKOUT_TIME_MS :: int where
  "LOCKOUT_TIME_MS = 30000"

definition DEBOUNCE_TIME_MS :: int where
  "DEBOUNCE_TIME_MS = 50"

definition MAX_FAILED_ATTEMPTS :: int where
  "MAX_FAILED_ATTEMPTS = 3"

section \<open>Machine integers\<close>

text \<open>
  \<open>failedAttempts\<close> is a C++ \<open>int\<close>, 32 bits on the target.  It is an integer here, and
  its increment wraps around as the two's-complement addition of the target does: one
  past 2147483647 is -2147483648.
\<close>

definition int32 :: "int \<Rightarrow> int" where
  "int32 x = (x + 2147483648) mod 4294967296 - 2147483648"

section \<open>The platform: clock, timers, display\<close>

text \<open>
  The Mbed \<open>Timer\<close> is a stopwatch over the system clock: it accumulates the time during
  which it was running.  The clock is a millisecond count \<open>clk\<close> handed to every
  operation.  \<open>start\<close> on a running timer does nothing, \<open>stop\<close> banks the running slice,
  \<open>reset\<close> zeroes the banked time and restarts the slice without changing whether the
  timer runs.  Times are unbounded integers here.
\<close>

record timer =
  t_running :: bool
  t_start :: int
  t_time :: int

definition slicetime :: "timer \<Rightarrow> int \<Rightarrow> int" where
  "slicetime t clk = (if t_running t then clk - t_start t else 0)"

definition read_ms :: "timer \<Rightarrow> int \<Rightarrow> int" where
  "read_ms t clk = t_time t + slicetime t clk"

definition timer_start :: "timer \<Rightarrow> int \<Rightarrow> timer" where
  "timer_start t clk = (if t_running t then t else t\<lparr>t_running := True, t_start := clk\<rparr>)"

definition timer_stop :: "timer \<Rightarrow> int \<Rightarrow> timer" where
  "timer_stop t clk = t\<lparr>t_time := t_time t + slicetime t clk, t_running := False\<rparr>"

definition timer_reset :: "timer \<Rightarrow> int \<Rightarrow> timer" where
  "timer_reset t clk = t\<lparr>t_start := clk, t_time := 0\<rparr>"

definition new_timer :: timer where
  "new_timer = \<lparr>t_running = False, t_start = 0, t_time = 0\<rparr>"

text \<open>
  The display is modelled by the sequence of commands sent to it; a \<open>printf\<close> keeps its
  format string and its integer arguments.
\<close>

datatype lcd_cmd = Cls | Locate nat nat | Printf string "int list"

section \<open>Controller state (the globals of main.cpp)\<close>

text \<open>
  The globals, the hardware outputs (\<open>led\<close>, \<open>lockControl\<close>, the period of an
  attached \<open>ledTicker\<close>, the commands sent to \<open>lcd\<close>), the static \<open>fastFlash\<close> of
  \<open>handleSpecialKeys\<close>, and the system clock in milliseconds, which \<open>sleep_for\<close>
  advances.  The times are unbounded integers.
\<close>

record controller =
  inputPassword :: string
  failedAttempts :: int
  isDoorOpen :: bool
  isLockedOut :: bool
  doorTimer :: timer
  lockoutTimer :: timer
  ledTicker :: "int option"
  led :: bool
  lockControl :: bool
  fastFlash :: bool
  lcd :: "lcd_cmd list"
  clock :: int

definition sleep_for :: "int \<Rightarrow> controller \<Rightarrow> controller" where
  "sleep_for ms s = s\<lparr>clock := clock s + ms\<rparr>"

definition lcd_write :: "lcd_cmd list \<Rightarrow> controller \<Rightarrow> controller" where
  "lcd_write cs s = s\<lparr>lcd := lcd s @ cs\<rparr>"

text \<open>\<open>ledFlashISR\<close>: the ticker callback toggles the LED while the door is open.\<close>

definition ledFlashISR :: "controller \<Rightarrow> controller" where
  "ledFlashISR s = (if isDoorOpen s then s\<lparr>led := \<not> led s\<rparr> else s)"

text \<open>\<open>openLock\<close> and \<open>closeLock\<close>, with \<open>USE_RELAY\<close> true.\<close>

definition openLock :: "controller \<Rightarrow> controller" where
  "openLock s =
     s\<lparr>isDoorOpen := True,
       lockControl := True,
       ledTicker := Some 250,
       doorTimer := timer_start (timer_reset (doorTimer s) (clock s)) (clock s)\<rparr>"

definition closeLock :: "controller \<Rightarrow> controller" where
  "closeLock s =
     s\<lparr>isDoorOpen := False,
       lockControl := False,
       ledTicker := None,
       led := True,
       doorTimer := timer_stop (doorTimer s) (clock s)\<rparr>"

text \<open>
  \<open>updateLCD\<close>.  The remaining seconds are computed with C++ integer division, which
  truncates towards zero (\<open>sdiv\<close>).
\<close>

definition updateLCD :: "controller \<Rightarrow> controller" where
  "updateLCD s =
     (if isLockedOut s then
        lcd_write [Cls, Printf ''LOCKED OUT!'' [], Locate 0 1,
                   Printf ''Wait %ds''
                     [(LOCKOUT_TIME_MS - read_ms (lockoutTimer s) (clock s)) sdiv 1000]] s
      else if isDoorOpen s then
        lcd_write [Cls, Printf ''Door Open'' [], Locate 0 1,
                   Printf ''Closing in %ds''
                     [(OPEN_TIME_MS - read_ms (doorTimer s) (clock s)) sdiv 1000]] s
      else
        lcd_write ([Cls, Printf ''Enter Password:'' [], Locate 0 1]
                   @ replicate (length (inputPassword s)) (Printf ''*'' [])) s)"

definition checkPassword :: "controller \<Rightarrow> controller" where
  "checkPassword s =
     (if isLockedOut s then
        lcd_write [Cls, Printf ''LOCKED OUT!'' [], Locate 0 1,
                   Printf ''Wait %ds''
                     [(LOCKOUT_TIME_MS - read_ms (lockoutTimer s) (clock s)) sdiv 1000]] s
      else
        let s1 =
          (if inputPassword s = PASSWORD then
             openLock
               ((lcd_write [Cls, Printf ''Access Granted!'' [], Locate 0 1,
                            Printf ''Door Opening...'' []] s)
                \<lparr>failedAttempts := 0\<rparr>)
           else
             let a = s\<lparr>failedAttempts := int32 (failedAttempts s + 1)\<rparr>;
                 b = lcd_write [Cls, Printf ''Wrong Password!'' [], Locate 0 1,
                                Printf ''Attempts: %d/%d''
                                  [failedAttempts a, MAX_FAILED_ATTEMPTS]] a
             in if failedAttempts b \<ge> MAX_FAILED_ATTEMPTS then
                  let c = lcd_write [Cls, Printf ''TOO MANY TRIES!'' [], Locate 0 1,
                                     Printf ''Locked 30s'' []] (sleep_for 2000 b)
                  in c\<lparr>isLockedOut := True,
                       lockoutTimer :=
                         timer_start (timer_reset (lockoutTimer c) (clock c)) (clock c)\<rparr>
                else b)
        in updateLCD (sleep_for 2000 (s1\<lparr>inputPassword := []\<rparr>)))"

definition resetSystem :: "controller \<Rightarrow> controller" where
  "resetSystem s =
     updateLCD
       (s\<lparr>isLockedOut := False,
          failedAttempts := 0,
          inputPassword := [],
          lockoutTimer := timer_stop (lockoutTimer s) (clock s)\<rparr>)"

definition handleSpecialKeys :: "char \<Rightarrow> controller \<Rightarrow> controller" where
  "handleSpecialKeys key s =
     updateLCD
       (if key = CHR ''A'' then
          lcd_write [Cls, Printf ''Door Lock v1.0'' [], Locate 0 1,
                     Printf ''Attempts: %d'' [failedAttempts s]] s
        else if key = CHR ''B'' then
          let a = s\<lparr>fastFlash := \<not> fastFlash s\<rparr>;
              b = (if fastFlash a
                   then lcd_write [Cls, Printf ''Fast Flash ON'' []] (a\<lparr>ledTicker := Some 100\<rparr>)
                   else lcd_write [Cls, Printf ''Normal Flash'' []] (a\<lparr>ledTicker := Some 250\<rparr>))
          in sleep_for 2000 b
        else if key = CHR ''C'' then
          (if failedAttempts s > 0
           then sleep_for 2000
                  (lcd_write [Cls, Printf ''Attempts Reset'' []] (s\<lparr>failedAttempts := 0\<rparr>))
           else sleep_for 2000 (lcd_write [Cls, Printf ''No Attempts'' []] s))
        else if key = CHR ''D'' then
          sleep_for 3000
            (if isDoorOpen s then
               lcd_write [Cls, Printf ''Door: OPEN'' [], Locate 0 1,
                          Printf ''Closes in %ds''
                            [(OPEN_TIME_MS - read_ms (doorTimer s) (clock s)) sdiv 1000]] s
             else if isLockedOut s then
               lcd_write [Cls, Printf ''Door: LOCKED'' [], Locate 0 1,
                          Printf ''Unlock in %ds''
                            [(LOCKOUT_TIME_MS - read_ms (lockoutTimer s) (clock s)) sdiv 1000]] s
             else
               lcd_write [Cls, Printf ''Door: CLOSED'' [], Locate 0 1, Printf ''Ready'' []] s)
        else s)"

section \<open>The driver loop of main\<close>

text \<open>The two expiry conditions tested at the top of the loop body.\<close>

definition lockout_expired :: "controller \<Rightarrow> bool" where
  "lockout_expired s =
     (isLockedOut s \<and> read_ms (lockoutTimer s) (clock s) \<ge> LOCKOUT_TIME_MS)"

definition door_expired :: "controller \<Rightarrow> bool" where
  "door_expired s = (isDoorOpen s \<and> read_ms (doorTimer s) (clock s) \<ge> OPEN_TIME_MS)"

text \<open>The expiry checks and the countdown refresh, in the order of the loop body.\<close>

definition main_timers :: "controller \<Rightarrow> controller" where
  "main_timers s =
     (let s1 = (if lockout_expired s then resetSystem s else s);
          s2 = (if door_expired s1 then updateLCD (closeLock s1) else s1)
      in if isDoorOpen s2 then updateLCD s2 else s2)"

text \<open>
  The dispatch of the symbol \<open>key\<close> that \<open>keypad.getKey()\<close> returned; the null symbol
  and every symbol received while the door is open are dropped.
\<close>

definition main_keys :: "char \<Rightarrow> controller \<Rightarrow> controller" where
  "main_keys key s =
     (if key \<noteq> CHR 0x00 \<and> \<not> isDoorOpen s then
        if key = CHR ''#'' then
          (if length (inputPassword s) > 0 then checkPassword s
           else updateLCD (sleep_for 2000
                  (lcd_write [Cls, Printf ''Enter Password'' [], Locate 0 1,
                              Printf ''First!'' []] s)))
        else if key = CHR ''*'' then
          (if length (inputPassword s) > 0 then updateLCD (s\<lparr>inputPassword := []\<rparr>)
           else updateLCD (sleep_for 1500 (lcd_write [Cls, Printf ''Nothing to Clear'' []] s)))
        else if CHR ''0'' \<le> key \<and> key \<le> CHR ''9'' then
          (if length (inputPassword s) < MAX_PASSWORD_LENGTH
           then updateLCD (s\<lparr>inputPassword := inputPassword s @ [key]\<rparr>)
           else s)
        else if key = CHR ''A'' \<or> key = CHR ''B'' \<or> key = CHR ''C'' \<or> key = CHR ''D'' then
          handleSpecialKeys key s
        else s
      else s)"

text \<open>
  One iteration of \<open>while (true)\<close> on the controller, for the symbol \<open>key\<close> that
  \<open>keypad.getKey()\<close> returns in it.  The iteration ends with \<open>sleep_for(100)\<close>; \<open>dt\<close>
  is the further time the iteration took (bus traffic to the display, the keypad scan).
\<close>

definition loop_body :: "char \<Rightarrow> nat \<Rightarrow> controller \<Rightarrow> controller" where
  "loop_body key dt s = sleep_for (100 + int dt) (main_keys key (main_timers s))"

text \<open>The state in which \<open>main\<close> enters its loop.\<close>

definition globals_init :: controller where
  "globals_init =
     \<lparr>inputPassword = [], failedAttempts = 0, isDoorOpen = False, isLockedOut = False,
      doorTimer = new_timer, lockoutTimer = new_timer, ledTicker = None, led = False,
      lockControl = False, fastFlash = False, lcd = [], clock = 0\<rparr>"

definition main_init :: controller where
  "main_init =
     (let s1 = sleep_for 2000
                 (lcd_write [Cls, Printf ''Door Lock v1.0'' [], Locate 0 1,
                             Printf ''Initializing...'' []] globals_init);
          s2 = closeLock s1;
          s3 = updateLCD (sleep_for 1000 (lcd_write [Cls, Printf ''System Ready!'' []] s2))
      in s3\<lparr>doorTimer := timer_start (doorTimer s3) (clock s3),
            lockoutTimer := timer_start (lockoutTimer s3) (clock s3)\<rparr>)"

text \<open>
  What happens to the controller from then on: loop iterations, each with the symbol its
  \<open>getKey\<close> call returned and the extra time it took, and firings of the LED ticker
  while one is attached.
\<close>

datatype event = Iter char nat | Tick

fun step :: "event \<Rightarrow> controller \<Rightarrow> controller" where
  "step (Iter key dt) s = loop_body key dt s"
| "step Tick s = (if ledTicker s \<noteq> None then ledFlashISR s else s)"

fun run :: "event list \<Rightarrow> controller \<Rightarrow> controller" where
  "run [] s = s"
| "run (e # es) s = run es (step e s)"

section \<open>The matrix keypad (Keypad.h, Keypad.cpp)\<close>

text \<open>
  Pin levels are booleans, \<open>True\<close> for HIGH.  \<open>kp_rowPins\<close> holds the levels last
  written to the row outputs.  The wiring and the fingers on the keys are the
  environment \<open>env\<close>: it gives the level read on a column input for the levels driven
  on the rows.
\<close>

record keypad =
  kp_keys :: "char list list"
  kp_rows :: nat
  kp_cols :: nat
  kp_rowPins :: "bool list"
  kp_lastKey :: char
  kp_debounceTimer :: timer

type_synonym wiring = "bool list \<Rightarrow> nat \<Rightarrow> bool"

text \<open>The constructor; the board's instance is \<open>keypad\<close> in main.cpp.\<close>

definition Keypad :: "char list list \<Rightarrow> nat \<Rightarrow> nat \<Rightarrow> int \<Rightarrow> keypad" where
  "Keypad ks rows cols clk =
     \<lparr>kp_keys = ks, kp_rows = rows, kp_cols = cols, kp_rowPins = replicate rows True,
      kp_lastKey = CHR 0x00, kp_debounceTimer = timer_start new_timer clk\<rparr>"

definition keys :: "char list list" where
  "keys = [''123A'', ''456B'', ''789C'', ''*0#D'']"

definition board_keypad :: keypad where
  "board_keypad = Keypad keys ROWS COLS 0"

text \<open>
  \<open>_keys[row][col]\<close>: a read outside the key map is undefined behaviour in the source,
  \<open>None\<close> here.
\<close>

definition key_at :: "char list list \<Rightarrow> nat \<Rightarrow> nat \<Rightarrow> char option" where
  "key_at ks row col =
     (if row < length ks \<and> col < length (ks ! row) then Some (ks ! row ! col) else None)"

text \<open>The levels on the row outputs while \<open>row\<close> is selected: that row LOW, the others HIGH.\<close>

definition select_row :: "nat \<Rightarrow> nat \<Rightarrow> bool list" where
  "select_row rows row = map (\<lambda>i. i \<noteq> row) [0..<rows]"

text \<open>The inner loop of \<open>scanKeys\<close>: the first column from \<open>col\<close> on that reads LOW.\<close>

function scan_cols :: "(nat \<Rightarrow> bool) \<Rightarrow> nat \<Rightarrow> nat \<Rightarrow> nat option" where
  "scan_cols rd cols col =
     (if col < cols then (if rd col = False then Some col else scan_cols rd cols (Suc col))
      else None)"
  by pat_completeness auto
termination
  by (relation "measure (\<lambda>(rd, cols, col). cols - col)") auto

text \<open>The outer loop: the row and column at which \<open>scanKeys\<close> returns from inside the loops.\<close>

function scan_rows :: "wiring \<Rightarrow> nat \<Rightarrow> nat \<Rightarrow> nat \<Rightarrow> (nat \<times> nat) option" where
  "scan_rows env rows cols row =
     (if row < rows then
        (case scan_cols (env (select_row rows row)) cols 0 of
           Some col \<Rightarrow> Some (row, col)
         | None \<Rightarrow> scan_rows env rows cols (Suc row))
      else None)"
  by pat_completeness auto
termination
  by (relation "measure (\<lambda>(env, rows, cols, row). rows - row)") auto

definition scanKeys :: "wiring \<Rightarrow> keypad \<Rightarrow> char option \<times> keypad" where
  "scanKeys env kp =
     (case scan_rows env (kp_rows kp) (kp_cols kp) 0 of
        Some (row, col) \<Rightarrow>
          (key_at (kp_keys kp) row col, kp\<lparr>kp_rowPins := replicate (kp_rows kp) True\<rparr>)
      | None \<Rightarrow> (Some (CHR 0x00), kp\<lparr>kp_rowPins := replicate (kp_rows kp) True\<rparr>))"

text \<open>The debouncing logic of \<open>getKey\<close>, applied to the scanned symbol \<open>key\<close> at time \<open>clk\<close>.\<close>

definition debounce :: "char \<Rightarrow> int \<Rightarrow> keypad \<Rightarrow> char \<times> keypad" where
  "debounce key clk kp =
     (if key \<noteq> CHR 0x00 then
        (if key \<noteq> kp_lastKey kp then
           (key, kp\<lparr>kp_lastKey := key,
                    kp_debounceTimer := timer_reset (kp_debounceTimer kp) clk\<rparr>)
         else if read_ms (kp_debounceTimer kp) clk > DEBOUNCE_TIME_MS then (CHR 0x00, kp)
         else (CHR 0x00, kp))
      else (CHR 0x00, kp\<lparr>kp_lastKey := CHR 0x00\<rparr>))"

definition getKey :: "wiring \<Rightarrow> int \<Rightarrow> keypad \<Rightarrow> (char \<times> keypad) option" where
  "getKey env clk kp =
     (case scanKeys env kp of
        (None, kp') \<Rightarrow> None
      | (Some key, kp') \<Rightarrow> Some (debounce key clk kp'))"

text \<open>
  One iteration of \<open>while (true)\<close> with its keypad: the expiry checks, then
  \<open>keypad.getKey()\<close>, then the dispatch of the symbol read, then the sleep.  With the
  symbol that \<open>getKey\<close> returns it is \<open>loop_body\<close> on the controller.
\<close>

definition main_loop ::
  "wiring \<Rightarrow> nat \<Rightarrow> controller \<times> keypad \<Rightarrow> (controller \<times> keypad) option" where
  "main_loop env dt sk =
     (case sk of (s, kp) \<Rightarrow>
        let s1 = main_timers s
        in case getKey env (clock s1) kp of
             None \<Rightarrow> None
           | Some (key, kp') \<Rightarrow> Some (sleep_for (100 + int dt) (main_keys key s1), kp'))"

text \<open>
  Successive \<open>getKey\<close> calls on a sequence of scans, each scan a symbol with the time of
  the call; the result is the sequence of symbols returned.
\<close>

fun poll :: "(char \<times> int) list \<Rightarrow> keypad \<Rightarrow> char list" where
  "poll [] kp = []"
| "poll ((key, clk) # rest) kp = fst (debounce key clk kp) # poll rest (snd (debounce key clk kp))"

text \<open>
  The specification's edge detector: a symbol is an event when it is not null and differs
  from the symbol of the scan before it.
\<close>

fun edge_events :: "char \<Rightarrow> char list \<Rightarrow> char list" where
  "edge_events prev [] = []"
| "edge_events prev (k # ks) =
     (if k \<noteq> CHR 0x00 \<and> k \<noteq> prev then k else CHR 0x00) # edge_events k ks"

text \<open>A row/column pair is active when its column reads LOW while its row is selected.\<close>

definition active :: "wiring \<Rightarrow> keypad \<Rightarrow> nat \<Rightarrow> nat \<Rightarrow> bool" where
  "active env kp row col = (env (select_row (kp_rows kp) row) col = False)"

text \<open>The geometry fits the key map.\<close>

definition geometry_ok :: "keypad \<Rightarrow> bool" where
  "geometry_ok kp =
     (kp_rows kp \<le> length (kp_keys kp) \<and> list_all (\<lambda>r. kp_cols kp \<le> length r) (kp_keys kp))"

text \<open>A matrix with ideal switches: key \<open>(r, c)\<close> pulls column \<open>c\<close> LOW while row \<open>r\<close> is LOW.\<close>

definition pressed :: "(nat \<times> nat) list \<Rightarrow> wiring" where
  "pressed ps pins col = (\<not> list_ex (\<lambda>(r, c). c = col \<and> r < length pins \<and> pins ! r = False) ps)"

section \<open>Example states\<close>

definition full_buffer_state :: controller where
  "full_buffer_state = main_init\<lparr>inputPassword := ''12345678''\<rparr>"

text \<open>Three wrong submissions after boot, and the lockout they end in.\<close>

definition three_failures :: "event list" where
  "three_failures =
     [Iter (CHR ''9'') 0, Iter (CHR ''#'') 0, Iter (CHR ''9'') 0, Iter (CHR ''#'') 0,
      Iter (CHR ''9'') 0, Iter (CHR ''#'') 0]"

definition locked_out_state :: controller where
  "locked_out_state = run three_failures main_init"

text \<open>The credential typed at boot; two failures followed by the credential.\<close>

definition password_typed :: "event list" where
  "password_typed = map (\<lambda>k. Iter k 0) ''1234''"

definition two_failures_then_password :: "event list" where
  "two_failures_then_password =
     [Iter (CHR ''9'') 0, Iter (CHR ''#'') 0, Iter (CHR ''9'') 0, Iter (CHR ''#'') 0,
      Iter (CHR ''1'') 0, Iter (CHR ''2'') 0, Iter (CHR ''3'') 0, Iter (CHR ''4'') 0]"

text \<open>
  The credential submitted at boot, the iteration of the submission taking eight seconds
  more: the door is open and its ten seconds have passed.
\<close>

definition door_expired_state :: controller where
  "door_expired_state = run (password_typed @ [Iter (CHR ''#'') 8000]) main_init"

text \<open>
  Three wrong submissions at boot, the iteration of the third taking 28 seconds more: the
  controller is locked out and the thirty seconds have passed.
\<close>

definition lockout_expired_state :: controller where
  "lockout_expired_state =
     run [Iter (CHR ''9'') 0, Iter (CHR ''#'') 0, Iter (CHR ''9'') 0, Iter (CHR ''#'') 0,
          Iter (CHR ''9'') 0, Iter (CHR ''#'') 28000] main_init"

section \<open>Failed submissions and the lockout\<close>

text \<open>
  An event is neutral when it neither submits nor resets the counter: a ticker firing, or
  an iteration whose key is not \<open>C\<close> and is \<open>#\<close> only on an empty buffer (where \<open>#\<close> is
  rejected).  Any other key, the null symbol and any delay are allowed.  A list of
  events is quiet when each is neutral in the state it meets.
\<close>

fun neutral :: "event \<Rightarrow> controller \<Rightarrow> bool" where
  "neutral Tick s = True"
| "neutral (Iter key dt) s =
     (key \<noteq> CHR ''C'' \<and> (key \<noteq> CHR ''#'' \<or> inputPassword s = []))"

fun quiet :: "event list \<Rightarrow> controller \<Rightarrow> bool" where
  "quiet [] s = True"
| "quiet (e # es) s = (neutral e s \<and> quiet es (step e s))"

text \<open>
  One submission: a list of events, then an iteration that reads \<open>#\<close>.  A run of
  failures is a sequence of submissions.
\<close>

definition submission :: "event list \<Rightarrow> nat \<Rightarrow> event list" where
  "submission gap dt = gap @ [Iter (CHR ''#'') dt]"

definition failures :: "(event list \<times> nat) list \<Rightarrow> event list" where
  "failures ws = concat (map (\<lambda>(gap, dt). submission gap dt) ws)"

text \<open>
  The submissions \<open>ws\<close> are consecutive failures from state \<open>s\<close>: the events before each
  \<open>#\<close> are quiet, and the buffer that the \<open>#\<close> submits is neither empty nor the
  credential.
\<close>

fun failing :: "(event list \<times> nat) list \<Rightarrow> controller \<Rightarrow> bool" where
  "failing [] s = True"
| "failing ((gap, dt) # ws) s =
     (quiet gap s \<and> inputPassword (run gap s) \<noteq> [] \<and> inputPassword (run gap s) \<noteq> PASSWORD \<and>
      failing ws (run (submission gap dt) s))"

text \<open>
  The lockout that began at time \<open>T\<close> is still in force, or its duration has passed.
\<close>

definition lockout_held :: "int \<Rightarrow> controller \<Rightarrow> bool" where
  "lockout_held T s =
     ((isLockedOut s \<and> lockoutTimer s = \<lparr>t_running = True, t_start = T, t_time = 0\<rparr>) \<or>
      T + LOCKOUT_TIME_MS \<le> clock s)"

text \<open>A password is being entered, \<open>n\<close> failures counted.\<close>

definition entering :: "int \<Rightarrow> controller \<Rightarrow> bool" where
  "entering n s = (\<not> isLockedOut s \<and> \<not> isDoorOpen s \<and> failedAttempts s = n)"

text \<open>
  Three failing submissions with other events between them, and keys pressed during the
  lockout that follows.
\<close>

definition three_wrong_entries :: "(event list \<times> nat) list" where
  "three_wrong_entries =
     [([Iter (CHR ''9'') 0, Iter (CHR 0x00) 0, Iter (CHR ''*'') 0, Iter (CHR ''8'') 0], 0),
      ([Iter (CHR ''A'') 0, Iter (CHR ''9'') 0], 0),
      ([Tick, Iter (CHR ''9'') 0], 0)]"

definition keys_during_lockout :: "event list" where
  "keys_during_lockout =
     [Iter (CHR ''5'') 0, Tick, Iter (CHR ''C'') 10000, Iter (CHR ''#'') 0, Iter (CHR ''*'') 0,
      Iter (CHR ''4'') 12000]"

text \<open>
  Three wrong submissions with \<open>C\<close> pressed before the third; three \<open>#\<close> on an empty
  buffer.
\<close>

definition reset_between_failures :: "event list" where
  "reset_between_failures =
     [Iter (CHR ''9'') 0, Iter (CHR ''#'') 0, Iter (CHR ''9'') 0, Iter (CHR ''#'') 0,
      Iter (CHR ''C'') 0, Iter (CHR ''9'') 0, Iter (CHR ''#'') 0]"

definition empty_submissions :: "event list" where
  "empty_submissions = [Iter (CHR ''#'') 0, Iter (CHR ''#'') 0, Iter (CHR ''#'') 0]"

section \<open>Invariant of the operating mode\<close>

text \<open>
  The door is never open during a lockout, and while the door is open the attempt
  counter is zero and the lock actuator is energised.
\<close>

definition mode_ok :: "controller \<Rightarrow> bool" where
  "mode_ok s =
     (\<not> (isDoorOpen s \<and> isLockedOut s) \<and>
      (isDoorOpen s \<longrightarrow> failedAttempts s = 0 \<and> lockControl s))"

text \<open>The attempt counter is within its range, and at the maximum only during a lockout.\<close>

definition attempts_ok :: "controller \<Rightarrow> bool" where
  "attempts_ok s =
     (0 \<le> failedAttempts s \<and> failedAttempts s \<le> MAX_FAILED_ATTEMPTS \<and>
      (isLockedOut s \<or> failedAttempts s < MAX_FAILED_ATTEMPTS))"

text \<open>Eight and nine digits typed at boot, one per iteration.\<close>

definition eight_digits :: "event list" where
  "eight_digits = map (\<lambda>k. Iter k 0) ''12345678''"

definition nine_digits :: "event list" where
  "nine_digits = map (\<lambda>k. Iter k 0) ''123456789''"

section \<open>Basic facts\<close>

lemmas io_defs = lcd_write_def sleep_for_def

lemmas lock_defs = openLock_def closeLock_def

lemmas key_defs = main_keys_def checkPassword_def handleSpecialKeys_def updateLCD_def

lemma updateLCD_fields [simp]:
  "inputPassword (updateLCD s) = inputPassword s"
  "failedAttempts (updateLCD s) = failedAttempts s"
  "isDoorOpen (updateLCD s) = isDoorOpen s"
  "isLockedOut (updateLCD s) = isLockedOut s"
  "doorTimer (updateLCD s) = doorTimer s"
  "lockoutTimer (updateLCD s) = lockoutTimer s"
  "ledTicker (updateLCD s) = ledTicker s"
  "led (updateLCD s) = led s"
  "lockControl (updateLCD s) = lockControl s"
  "fastFlash (updateLCD s) = fastFlash s"
  "clock (updateLCD s) = clock s"
  by (simp_all add: updateLCD_def io_defs)

lemma main_keys_full_digit:
  "CHR ''0'' \<le> key \<Longrightarrow> key \<le> CHR ''9'' \<Longrightarrow> MAX_PASSWORD_LENGTH \<le> length (inputPassword s)
   \<Longrightarrow> main_keys key s = s"
  by (auto simp add: main_keys_def)

lemmas timer_defs = read_ms_def slicetime_def timer_start_def timer_stop_def timer_reset_def

lemma main_timers_fields:
  "isLockedOut (main_timers s) = (isLockedOut s \<and> \<not> lockout_expired s)"
  "isDoorOpen (main_timers s) = (isDoorOpen s \<and> \<not> door_expired s)"
  "inputPassword (main_timers s) = (if lockout_expired s then [] else inputPassword s)"
  "failedAttempts (main_timers s) = (if lockout_expired s then 0 else failedAttempts s)"
  "lockControl (main_timers s) = (lockControl s \<and> \<not> door_expired s)"
  "clock (main_timers s) = clock s"
  "lockoutTimer (main_timers s) =
     (if lockout_expired s then timer_stop (lockoutTimer s) (clock s) else lockoutTimer s)"
  by (auto simp add: main_timers_def resetSystem_def closeLock_def door_expired_def
      lockout_expired_def Let_def)

lemma int32_in_range: "- 2147483648 \<le> x \<Longrightarrow> x \<le> 2147483647 \<Longrightarrow> int32 x = x"
  by (simp add: int32_def)

lemma checkPassword_locked:
  "isLockedOut s \<Longrightarrow> checkPassword s = s\<lparr>lcd := lcd (checkPassword s)\<rparr>"
  by (simp add: checkPassword_def io_defs)

lemma checkPassword_granted:
  assumes "\<not> isLockedOut s" "inputPassword s = PASSWORD"
  shows "isDoorOpen (checkPassword s)" "lockControl (checkPassword s)"
    "failedAttempts (checkPassword s) = 0" "\<not> isLockedOut (checkPassword s)"
    "inputPassword (checkPassword s) = []"
  using assms by (simp_all add: checkPassword_def io_defs openLock_def)

lemma checkPassword_denied:
  assumes "\<not> isLockedOut s" "inputPassword s \<noteq> PASSWORD"
  shows "isDoorOpen (checkPassword s) = isDoorOpen s"
    "lockControl (checkPassword s) = lockControl s"
    "failedAttempts (checkPassword s) = int32 (failedAttempts s + 1)"
    "isLockedOut (checkPassword s) = (MAX_FAILED_ATTEMPTS \<le> int32 (failedAttempts s + 1))"
    "inputPassword (checkPassword s) = []"
  using assms by (simp_all add: checkPassword_def io_defs Let_def)

lemma handleSpecialKeys_fields:
  "inputPassword (handleSpecialKeys key s) = inputPassword s"
  "isDoorOpen (handleSpecialKeys key s) = isDoorOpen s"
  "isLockedOut (handleSpecialKeys key s) = isLockedOut s"
  "lockControl (handleSpecialKeys key s) = lockControl s"
  "lockoutTimer (handleSpecialKeys key s) = lockoutTimer s"
  "doorTimer (handleSpecialKeys key s) = doorTimer s"
  "failedAttempts (handleSpecialKeys key s) =
     (if key = CHR ''C'' \<and> failedAttempts s > 0 then 0 else failedAttempts s)"
  by (simp_all add: handleSpecialKeys_def io_defs Let_def)

lemma checkPassword_buffer: "length (inputPassword (checkPassword s)) \<le> length (inputPassword s)"
  by (cases "isLockedOut s"; cases "inputPassword s = PASSWORD")
     (simp_all add: checkPassword_granted checkPassword_denied, simp_all add: checkPassword_def io_defs)

lemma main_keys_buffer_bound:
  "length (inputPassword s) \<le> MAX_PASSWORD_LENGTH
   \<Longrightarrow> length (inputPassword (main_keys key s)) \<le> MAX_PASSWORD_LENGTH"
  using checkPassword_buffer [of s]
  by (auto simp add: main_keys_def handleSpecialKeys_fields io_defs)

lemma step_buffer_bound:
  "length (inputPassword s) \<le> MAX_PASSWORD_LENGTH
   \<Longrightarrow> length (inputPassword (step e s)) \<le> MAX_PASSWORD_LENGTH"
proof (cases e)
  case (Iter key dt)
  assume b: "length (inputPassword s) \<le> MAX_PASSWORD_LENGTH"
  have "length (inputPassword (main_timers s)) \<le> MAX_PASSWORD_LENGTH"
    using b by (simp add: main_timers_fields)
  then have "length (inputPassword (main_keys key (main_timers s))) \<le> MAX_PASSWORD_LENGTH"
    by (rule main_keys_buffer_bound)
  then show ?thesis
    using Iter by (simp add: loop_body_def sleep_for_def)
next
  case Tick
  assume "length (inputPassword s) \<le> MAX_PASSWORD_LENGTH"
  then show ?thesis
    using Tick by (simp add: ledFlashISR_def)
qed

lemma run_buffer_bound:
  "length (inputPassword s) \<le> MAX_PASSWORD_LENGTH
   \<Longrightarrow> length (inputPassword (run evs s)) \<le> MAX_PASSWORD_LENGTH"
  by (induction evs arbitrary: s) (simp_all add: step_buffer_bound del: step.simps)

section \<open>The mode invariant holds\<close>

lemma main_timers_mode_ok: "mode_ok s \<Longrightarrow> mode_ok (main_timers s)"
  by (auto simp add: mode_ok_def main_timers_fields)

lemma checkPassword_mode_ok:
  "mode_ok s \<Longrightarrow> \<not> isDoorOpen s \<Longrightarrow> mode_ok (checkPassword s)"
  by (cases "isLockedOut s"; cases "inputPassword s = PASSWORD")
     (simp_all add: mode_ok_def checkPassword_granted checkPassword_denied,
      simp_all add: checkPassword_def io_defs)

lemma main_keys_mode_ok: "mode_ok s \<Longrightarrow> mode_ok (main_keys key s)"
  using checkPassword_mode_ok [of s]
  by (simp add: main_keys_def) (simp add: mode_ok_def handleSpecialKeys_fields io_defs)

lemma step_mode_ok: "mode_ok s \<Longrightarrow> mode_ok (step e s)"
proof (cases e)
  case (Iter key dt)
  assume "mode_ok s"
  then have "mode_ok (main_keys key (main_timers s))"
    by (intro main_keys_mode_ok main_timers_mode_ok)
  then show ?thesis
    using Iter by (simp add: loop_body_def sleep_for_def mode_ok_def)
next
  case Tick
  assume "mode_ok s"
  then show ?thesis
    using Tick by (simp add: ledFlashISR_def mode_ok_def)
qed

lemma run_mode_ok: "mode_ok s \<Longrightarrow> mode_ok (run evs s)"
  by (induction evs arbitrary: s) (simp_all add: step_mode_ok del: step.simps)

lemma main_init_mode_ok: "mode_ok main_init"
  by (simp add: mode_ok_def main_init_def globals_init_def io_defs lock_defs Let_def)

section \<open>Buffer bound\<close>

text \<open>
  C4.  The input buffer never grows beyond \<open>MAX_PASSWORD_LENGTH\<close>: whatever events
  follow a state whose buffer is within the bound, with or without \<open>#\<close> among them, the
  buffer stays within it, and so it does from boot.  A digit that arrives when the
  buffer is full leaves the whole controller state unchanged.
\<close>

theorem buffer_never_exceeds_maximum:
  "(length (inputPassword s) \<le> MAX_PASSWORD_LENGTH \<longrightarrow>
      length (inputPassword (run evs s)) \<le> MAX_PASSWORD_LENGTH) \<and>
   length (inputPassword (run evs main_init)) \<le> MAX_PASSWORD_LENGTH \<and>
   (CHR ''0'' \<le> key \<and> key \<le> CHR ''9'' \<and> length (inputPassword s) = MAX_PASSWORD_LENGTH \<longrightarrow>
      main_keys key s = s)"
proof -
  have "length (inputPassword main_init) \<le> MAX_PASSWORD_LENGTH"
    by (simp add: main_init_def globals_init_def io_defs lock_defs Let_def)
  then have "length (inputPassword (run evs main_init)) \<le> MAX_PASSWORD_LENGTH"
    by (rule run_buffer_bound)
  then show ?thesis
    using run_buffer_bound [of s evs] main_keys_full_digit [of key s] by simp
qed

theorem buffer_never_exceeds_maximum_witness:
  "length (inputPassword full_buffer_state) \<le> MAX_PASSWORD_LENGTH \<and>
   length (inputPassword (run nine_digits full_buffer_state)) \<le> MAX_PASSWORD_LENGTH \<and>
   length (inputPassword (run nine_digits main_init)) \<le> MAX_PASSWORD_LENGTH \<and>
   CHR ''0'' \<le> CHR ''7'' \<and> CHR ''7'' \<le> CHR ''9'' \<and>
   main_keys (CHR ''7'') full_buffer_state = full_buffer_state"
  using buffer_never_exceeds_maximum [of full_buffer_state nine_digits "CHR ''7''"]
  by (simp add: full_buffer_state_def MAX_PASSWORD_LENGTH_def)

section \<open>Door open and lockout exclude each other\<close>

text \<open>
  C9.  In every state reached from boot by loop iterations (with any key symbols and any
  passage of time) and ticker firings, the door-open flag and the locked-out flag are
  not both set.
\<close>

theorem door_open_excludes_lockout:
  "\<not> (isDoorOpen (run evs main_init) \<and> isLockedOut (run evs main_init))"
  using run_mode_ok [OF main_init_mode_ok, of evs] by (simp add: mode_ok_def)

theorem door_open_excludes_lockout_witness:
  "\<not> (isDoorOpen (run nine_digits main_init) \<and> isLockedOut (run nine_digits main_init))"
  by (rule door_open_excludes_lockout)

section \<open>Evaluation of the example states\<close>

lemmas run_defs = loop_body_def main_timers_def lockout_expired_def door_expired_def
  resetSystem_def ledFlashISR_def key_defs io_defs lock_defs timer_defs
  main_init_def globals_init_def new_timer_def Let_def
  PASSWORD_def MAX_PASSWORD_LENGTH_def OPEN_TIME_MS_def LOCKOUT_TIME_MS_def MAX_FAILED_ATTEMPTS_def
  int32_def

lemma locked_out_state_fields:
  "isLockedOut locked_out_state" "\<not> isDoorOpen locked_out_state"
  "inputPassword locked_out_state = []" "failedAttempts locked_out_state = 3"
  "\<not> lockout_expired locked_out_state"
  by (simp_all add: locked_out_state_def three_failures_def run_defs)

section \<open>Rejected input\<close>

lemma main_keys_star_rejected:
  "\<not> isDoorOpen s \<Longrightarrow> \<not> isLockedOut s \<Longrightarrow> inputPassword s = [] \<Longrightarrow>
   main_keys (CHR ''*'') s =
     s\<lparr>lcd := lcd s @ [Cls, Printf ''Nothing to Clear'' [],
                        Cls, Printf ''Enter Password:'' [], Locate 0 1],
       clock := clock s + 1500\<rparr>"
  by (simp add: main_keys_def updateLCD_def io_defs)

lemma main_keys_hash_rejected:
  "\<not> isDoorOpen s \<Longrightarrow> \<not> isLockedOut s \<Longrightarrow> inputPassword s = [] \<Longrightarrow>
   main_keys (CHR ''#'') s =
     s\<lparr>lcd := lcd s @ [Cls, Printf ''Enter Password'' [], Locate 0 1, Printf ''First!'' [],
                        Cls, Printf ''Enter Password:'' [], Locate 0 1],
       clock := clock s + 2000\<rparr>"
  by (simp add: main_keys_def updateLCD_def io_defs)

lemma eight_digits_fields:
  "\<not> isDoorOpen (run eight_digits main_init)" "\<not> isLockedOut (run eight_digits main_init)"
  "inputPassword (run eight_digits main_init) = ''12345678''"
  by (simp_all add: eight_digits_def run_defs)

text \<open>
  C8 as stated fails in its last part: a digit rejected at a full buffer is not surfaced
  through the display.  With eight digits typed after boot a password is being entered
  and the buffer is full; the key \<open>5\<close> then leaves the display as it was.
\<close>

theorem full_buffer_silent_counterexample:
  "\<not> isDoorOpen (run eight_digits main_init) \<and> \<not> isLockedOut (run eight_digits main_init) \<and>
   length (inputPassword (run eight_digits main_init)) = MAX_PASSWORD_LENGTH \<and>
   lcd (main_keys (CHR ''5'') (run eight_digits main_init)) = lcd (run eight_digits main_init)"
  by (simp add: eight_digits_fields main_keys_def MAX_PASSWORD_LENGTH_def)

text \<open>
  C8, amended.  Rejected inputs cause no state change.  While a password is being entered
  with an empty buffer, \<open>*\<close> sends the message ``Nothing to Clear'' to the display, waits
  1500 ms and redraws the prompt, and \<open>#\<close> sends ``Enter Password / First!'', waits
  2000 ms and redraws the prompt; the state after either differs from the state before
  in the display and the clock only, so buffer, counter and mode are as they were.  A
  digit at a full buffer is dropped silently: the whole state, display included, is
  unchanged.
\<close>

theorem rejected_input_effects:
  "(\<not> isDoorOpen s \<and> \<not> isLockedOut s \<and> inputPassword s = [] \<longrightarrow>
      main_keys (CHR ''*'') s =
        s\<lparr>lcd := lcd s @ [Cls, Printf ''Nothing to Clear'' [],
                           Cls, Printf ''Enter Password:'' [], Locate 0 1],
          clock := clock s + 1500\<rparr> \<and>
      main_keys (CHR ''#'') s =
        s\<lparr>lcd := lcd s @ [Cls, Printf ''Enter Password'' [], Locate 0 1, Printf ''First!'' [],
                           Cls, Printf ''Enter Password:'' [], Locate 0 1],
          clock := clock s + 2000\<rparr>) \<and>
   (CHR ''0'' \<le> key \<and> key \<le> CHR ''9'' \<and> length (inputPassword s) = MAX_PASSWORD_LENGTH \<longrightarrow>
      main_keys key s = s)"
  using main_keys_full_digit [of key s] main_keys_star_rejected [of s]
    main_keys_hash_rejected [of s]
  by simp

theorem rejected_input_effects_witness:
  "\<not> isDoorOpen main_init \<and> \<not> isLockedOut main_init \<and> inputPassword main_init = [] \<and>
   inputPassword (main_keys (CHR ''*'') main_init) = [] \<and>
   failedAttempts (main_keys (CHR ''*'') main_init) = failedAttempts main_init \<and>
   \<not> isDoorOpen (main_keys (CHR ''*'') main_init) \<and>
   \<not> isLockedOut (main_keys (CHR ''*'') main_init) \<and>
   lcd (main_keys (CHR ''*'') main_init) \<noteq> lcd main_init \<and>
   inputPassword (main_keys (CHR ''#'') main_init) = [] \<and>
   lcd (main_keys (CHR ''#'') main_init) \<noteq> lcd main_init \<and>
   length (inputPassword (run eight_digits main_init)) = MAX_PASSWORD_LENGTH \<and>
   main_keys (CHR ''5'') (run eight_digits main_init) = run eight_digits main_init"
proof -
  have h: "\<not> isDoorOpen main_init" "\<not> isLockedOut main_init" "inputPassword main_init = []"
    by (simp_all add: main_init_def globals_init_def io_defs lock_defs Let_def)
  have f: "length (inputPassword (run eight_digits main_init)) = MAX_PASSWORD_LENGTH"
    by (simp add: eight_digits_fields MAX_PASSWORD_LENGTH_def)
  show ?thesis
    using rejected_input_effects [of main_init "CHR ''5''"]
      rejected_input_effects [of "run eight_digits main_init" "CHR ''5''"] h f
    by simp
qed

section \<open>The correct password\<close>

lemma main_keys_loop_granted:
  assumes "\<not> isLockedOut s" "\<not> isDoorOpen s" "inputPassword s = PASSWORD"
  shows "isDoorOpen (loop_body (CHR ''#'') dt s) \<and> lockControl (loop_body (CHR ''#'') dt s) \<and>
         failedAttempts (loop_body (CHR ''#'') dt s) = 0 \<and> \<not> isLockedOut (loop_body (CHR ''#'') dt s)"
proof -
  let ?t = "main_timers s"
  have t: "\<not> isLockedOut ?t" "\<not> isDoorOpen ?t" "inputPassword ?t = PASSWORD"
    using assms by (simp_all add: main_timers_fields lockout_expired_def)
  have "main_keys (CHR ''#'') ?t = checkPassword ?t"
    using t by (simp add: main_keys_def PASSWORD_def)
  then show ?thesis
    using checkPassword_granted [OF t(1) t(3)] by (simp add: loop_body_def sleep_for_def)
qed

lemma reachable_granted:
  assumes "mode_ok s" "\<not> isLockedOut s" "inputPassword s = PASSWORD"
  shows "isDoorOpen (loop_body (CHR ''#'') dt s) \<and> lockControl (loop_body (CHR ''#'') dt s) \<and>
         failedAttempts (loop_body (CHR ''#'') dt s) = 0 \<and> \<not> isLockedOut (loop_body (CHR ''#'') dt s)"
proof -
  let ?t = "main_timers s"
  have m: "mode_ok ?t" using assms(1) by (rule main_timers_mode_ok)
  have t: "\<not> isLockedOut ?t" "inputPassword ?t = PASSWORD"
    using assms by (simp_all add: main_timers_fields lockout_expired_def)
  show ?thesis
  proof (cases "isDoorOpen ?t")
    case True
    then have "main_keys (CHR ''#'') ?t = ?t" by (simp add: main_keys_def)
    then show ?thesis using True m t by (simp add: loop_body_def sleep_for_def mode_ok_def)
  next
    case False
    then have "main_keys (CHR ''#'') ?t = checkPassword ?t"
      using t by (simp add: main_keys_def PASSWORD_def)
    then show ?thesis
      using checkPassword_granted [OF t] by (simp add: loop_body_def sleep_for_def)
  qed
qed

text \<open>
  C2.  Submitting the credential opens the door and zeroes the attempt counter.  In any
  state that is neither locked out nor door-open, whatever the counter and the timers,
  an iteration that reads \<open>#\<close> with the credential in the buffer ends with the door
  flag set, the relay energised and the counter at zero.  In the states reached from boot
  the same holds with no assumption on the door flag.
\<close>

theorem correct_password_opens_door:
  "(\<not> isLockedOut s \<and> \<not> isDoorOpen s \<and> failedAttempts s < MAX_FAILED_ATTEMPTS \<and>
    inputPassword s = PASSWORD \<longrightarrow>
      isDoorOpen (loop_body (CHR ''#'') dt s) \<and> lockControl (loop_body (CHR ''#'') dt s) \<and>
      failedAttempts (loop_body (CHR ''#'') dt s) = 0 \<and>
      \<not> isLockedOut (loop_body (CHR ''#'') dt s)) \<and>
   (\<not> isLockedOut (run evs main_init) \<and>
    failedAttempts (run evs main_init) < MAX_FAILED_ATTEMPTS \<and>
    inputPassword (run evs main_init) = PASSWORD \<longrightarrow>
      isDoorOpen (loop_body (CHR ''#'') dt (run evs main_init)) \<and>
      lockControl (loop_body (CHR ''#'') dt (run evs main_init)) \<and>
      failedAttempts (loop_body (CHR ''#'') dt (run evs main_init)) = 0 \<and>
      \<not> isLockedOut (loop_body (CHR ''#'') dt (run evs main_init)))"
  using main_keys_loop_granted [of s dt]
    reachable_granted [OF run_mode_ok [OF main_init_mode_ok], of evs dt]
  by blast

lemma two_failures_then_password_fields:
  "\<not> isLockedOut (run two_failures_then_password main_init)"
  "\<not> isDoorOpen (run two_failures_then_password main_init)"
  "failedAttempts (run two_failures_then_password main_init) = 2"
  "inputPassword (run two_failures_then_password main_init) = ''1234''"
  by (simp_all add: two_failures_then_password_def run_defs)

theorem correct_password_opens_door_witness:
  "\<not> isLockedOut (run two_failures_then_password main_init) \<and>
   \<not> isDoorOpen (run two_failures_then_password main_init) \<and>
   failedAttempts (run two_failures_then_password main_init) = 2 \<and>
   inputPassword (run two_failures_then_password main_init) = PASSWORD \<and>
   isDoorOpen (loop_body (CHR ''#'') 7 (run two_failures_then_password main_init)) \<and>
   lockControl (loop_body (CHR ''#'') 7 (run two_failures_then_password main_init)) \<and>
   failedAttempts (loop_body (CHR ''#'') 7 (run two_failures_then_password main_init)) = 0"
  using correct_password_opens_door [of "run two_failures_then_password main_init" 7
      two_failures_then_password]
  by (simp add: two_failures_then_password_fields PASSWORD_def MAX_FAILED_ATTEMPTS_def)

section \<open>The C key\<close>




section \<open>Keys during a lockout\<close>

text \<open>
  C1 as stated fails: after three wrong submissions from boot the controller is locked
  out, and there the key \<open>5\<close> changes the input buffer and the key \<open>C\<close> changes the
  attempt counter.
\<close>

theorem locked_out_digit_counterexample:
  "isLockedOut locked_out_state \<and>
   inputPassword (main_keys (CHR ''5'') locked_out_state) \<noteq> inputPassword locked_out_state \<and>
   failedAttempts (main_keys (CHR ''C'') locked_out_state) \<noteq> failedAttempts locked_out_state"
  by (simp add: locked_out_state_fields main_keys_def handleSpecialKeys_fields MAX_PASSWORD_LENGTH_def)

lemma checkPassword_locked_fields:
  assumes "isLockedOut s"
  shows "inputPassword (checkPassword s) = inputPassword s"
    "failedAttempts (checkPassword s) = failedAttempts s"
    "isDoorOpen (checkPassword s) = isDoorOpen s"
    "isLockedOut (checkPassword s)"
    "lockoutTimer (checkPassword s) = lockoutTimer s"
    "clock (checkPassword s) = clock s"
  using assms by (simp_all add: checkPassword_def io_defs)

lemma main_keys_hash_locked:
  "isLockedOut s \<Longrightarrow> (main_keys (CHR ''#'') s)\<lparr>lcd := lcd s, clock := clock s\<rparr> = s"
  by (simp add: main_keys_def checkPassword_def updateLCD_def io_defs)

lemma main_keys_locked_mode:
  "isLockedOut s \<Longrightarrow>
   isLockedOut (main_keys key s) \<and> isDoorOpen (main_keys key s) = isDoorOpen s"
  by (simp add: main_keys_def handleSpecialKeys_fields checkPassword_locked_fields io_defs)

lemma main_keys_locked_attempts:
  "isLockedOut s \<Longrightarrow> key \<noteq> CHR ''C'' \<Longrightarrow> failedAttempts (main_keys key s) = failedAttempts s"
  by (simp add: main_keys_def handleSpecialKeys_fields checkPassword_locked_fields io_defs)

lemma main_keys_locked_buffer:
  "isLockedOut s \<Longrightarrow> key \<noteq> CHR ''*'' \<Longrightarrow> \<not> (CHR ''0'' \<le> key \<and> key \<le> CHR ''9'')
   \<Longrightarrow> inputPassword (main_keys key s) = inputPassword s"
  by (cases "CHR ''0'' \<le> key")
     (simp_all add: main_keys_def handleSpecialKeys_fields checkPassword_locked_fields io_defs)

lemma main_keys_locked_edit:
  "\<not> isDoorOpen s \<Longrightarrow>
   inputPassword (main_keys (CHR ''*'') s) = [] \<and>
   (CHR ''0'' \<le> key \<and> key \<le> CHR ''9'' \<and> length (inputPassword s) < MAX_PASSWORD_LENGTH \<longrightarrow>
      inputPassword (main_keys key s) = inputPassword s @ [key])"
  by (simp add: main_keys_def io_defs)

text \<open>
  C1, amended.  During a lockout no key changes the door-open or the locked-out flag, and
  \<open>#\<close> changes nothing but the display and the clock.  The attempt counter is unchanged
  by every key but \<open>C\<close>, the buffer by every key but \<open>*\<close> and the digits: a digit is
  still appended while the buffer has room, and \<open>*\<close> still clears the buffer.
\<close>

theorem locked_out_keys:
  "isLockedOut s \<longrightarrow>
     isLockedOut (main_keys key s) \<and>
     isDoorOpen (main_keys key s) = isDoorOpen s \<and>
     (main_keys (CHR ''#'') s)\<lparr>lcd := lcd s, clock := clock s\<rparr> = s \<and>
     (key \<noteq> CHR ''C'' \<longrightarrow> failedAttempts (main_keys key s) = failedAttempts s) \<and>
     (key \<noteq> CHR ''*'' \<and> \<not> (CHR ''0'' \<le> key \<and> key \<le> CHR ''9'') \<longrightarrow>
        inputPassword (main_keys key s) = inputPassword s) \<and>
     (\<not> isDoorOpen s \<and> CHR ''0'' \<le> key \<and> key \<le> CHR ''9'' \<and>
      length (inputPassword s) < MAX_PASSWORD_LENGTH \<longrightarrow>
        inputPassword (main_keys key s) = inputPassword s @ [key]) \<and>
     (\<not> isDoorOpen s \<longrightarrow> inputPassword (main_keys (CHR ''*'') s) = [])"
  using main_keys_hash_locked [of s] main_keys_locked_mode [of s key]
    main_keys_locked_attempts [of s key] main_keys_locked_buffer [of s key]
    main_keys_locked_edit [of s key]
  by blast

theorem locked_out_keys_witness:
  "isLockedOut locked_out_state \<and> \<not> isDoorOpen locked_out_state \<and>
   isLockedOut (main_keys (CHR ''5'') locked_out_state) \<and>
   \<not> isDoorOpen (main_keys (CHR ''5'') locked_out_state) \<and>
   (main_keys (CHR ''#'') locked_out_state)
     \<lparr>lcd := lcd locked_out_state, clock := clock locked_out_state\<rparr> = locked_out_state \<and>
   failedAttempts (main_keys (CHR ''5'') locked_out_state) = failedAttempts locked_out_state \<and>
   inputPassword (main_keys (CHR ''5'') locked_out_state) = ''5''"
  using locked_out_keys [of locked_out_state "CHR ''5''"]
  by (simp add: locked_out_state_fields MAX_PASSWORD_LENGTH_def)

section \<open>The keypad scan\<close>

text \<open>The loops are unfolded one step at a time, by their induction rules.\<close>

declare scan_cols.simps [simp del] scan_rows.simps [simp del]

lemma scan_cols_first:
  "col \<le> c \<Longrightarrow> c < cols \<Longrightarrow> \<not> rd c \<Longrightarrow> (\<forall>c'. col \<le> c' \<and> c' < c \<longrightarrow> rd c')
   \<Longrightarrow> scan_cols rd cols col = Some c"
proof (induction rd cols col rule: scan_cols.induct)
  case (1 rd cols col)
  have lt: "col < cols" using "1.prems" by simp
  show ?case
  proof (cases "rd col")
    case False
    have "\<not> col < c"
    proof
      assume "col < c"
      then have "rd col" using "1.prems"(4) by simp
      then show False using False by simp
    qed
    then have "col = c"
      using "1.prems"(1) by simp
    then show ?thesis
      using lt False by (subst scan_cols.simps) simp
  next
    case True
    then have "col \<noteq> c" using "1.prems"(3) by blast
    then have "Suc col \<le> c" using "1.prems" by simp
    moreover have "\<forall>c'. Suc col \<le> c' \<and> c' < c \<longrightarrow> rd c'"
      using "1.prems" by simp
    ultimately have "scan_cols rd cols (Suc col) = Some c"
      using "1.IH" [OF lt] True "1.prems" by simp
    then show ?thesis
      using lt True by (subst scan_cols.simps) simp
  qed
qed

lemma scan_cols_none:
  "(\<forall>c. col \<le> c \<and> c < cols \<longrightarrow> rd c) \<Longrightarrow> scan_cols rd cols col = None"
proof (induction rd cols col rule: scan_cols.induct)
  case (1 rd cols col)
  show ?case
  proof (cases "col < cols")
    case False
    then show ?thesis by (subst scan_cols.simps) simp
  next
    case True
    then have "rd col" using "1.prems" by simp
    moreover have "scan_cols rd cols (Suc col) = None"
      using "1.IH" [OF True] \<open>rd col\<close> "1.prems" by simp
    ultimately show ?thesis
      using True by (subst scan_cols.simps) simp
  qed
qed

lemma scan_rows_first:
  "row \<le> r \<Longrightarrow> r < rows \<Longrightarrow> c < cols \<Longrightarrow> \<not> env (select_row rows r) c
   \<Longrightarrow> (\<forall>c'. c' < c \<longrightarrow> env (select_row rows r) c')
   \<Longrightarrow> (\<forall>r' c'. row \<le> r' \<and> r' < r \<and> c' < cols \<longrightarrow> env (select_row rows r') c')
   \<Longrightarrow> scan_rows env rows cols row = Some (r, c)"
proof (induction env rows cols row rule: scan_rows.induct)
  case (1 env rows cols row)
  have lt: "row < rows" using "1.prems" by simp
  show ?case
  proof (cases "row = r")
    case True
    have "scan_cols (env (select_row rows r)) cols 0 = Some c"
      using "1.prems" by (intro scan_cols_first) simp_all
    then show ?thesis
      using lt True by (subst scan_rows.simps) simp
  next
    case False
    then have less: "row < r" using "1.prems" by simp
    have none: "scan_cols (env (select_row rows row)) cols 0 = None"
      using "1.prems" less by (intro scan_cols_none) simp
    have "scan_rows env rows cols (Suc row) = Some (r, c)"
      using "1.IH" [OF lt none] "1.prems" less by simp
    then show ?thesis
      using lt none by (subst scan_rows.simps) simp
  qed
qed

lemma scan_rows_none:
  "(\<forall>r c. row \<le> r \<and> r < rows \<and> c < cols \<longrightarrow> env (select_row rows r) c)
   \<Longrightarrow> scan_rows env rows cols row = None"
proof (induction env rows cols row rule: scan_rows.induct)
  case (1 env rows cols row)
  show ?case
  proof (cases "row < rows")
    case False
    then show ?thesis by (subst scan_rows.simps) simp
  next
    case True
    have none: "scan_cols (env (select_row rows row)) cols 0 = None"
      using "1.prems" True by (intro scan_cols_none) simp
    have "scan_rows env rows cols (Suc row) = None"
      using "1.IH" [OF True none] "1.prems" by simp
    then show ?thesis
      using True none by (subst scan_rows.simps) simp
  qed
qed

lemma key_at_in_range:
  "geometry_ok kp \<Longrightarrow> r < kp_rows kp \<Longrightarrow> c < kp_cols kp
   \<Longrightarrow> key_at (kp_keys kp) r c = Some (kp_keys kp ! r ! c)"
proof -
  assume g: "geometry_ok kp" and r: "r < kp_rows kp" and c: "c < kp_cols kp"
  have rl: "r < length (kp_keys kp)"
    using g r by (simp add: geometry_ok_def)
  then have "kp_cols kp \<le> length (kp_keys kp ! r)"
    using g by (simp add: geometry_ok_def list_all_length)
  then show ?thesis
    using rl c by (simp add: key_at_def)
qed

lemma scanKeys_rows_restored:
  "kp_rowPins (snd (scanKeys env kp)) = replicate (kp_rows kp) True"
  by (simp add: scanKeys_def split: option.split prod.split)

lemma scanKeys_found:
  assumes "geometry_ok kp" "r < kp_rows kp" "c < kp_cols kp" "active env kp r c"
    and "\<forall>r' c'. r' < kp_rows kp \<and> c' < kp_cols kp \<and> (r' < r \<or> r' = r \<and> c' < c)
           \<longrightarrow> \<not> active env kp r' c'"
  shows "fst (scanKeys env kp) = Some (kp_keys kp ! r ! c)"
proof -
  have "\<forall>c'. c' < c \<longrightarrow> env (select_row (kp_rows kp) r) c'"
  proof (intro allI impI)
    fix c' assume "c' < c"
    then have "\<not> active env kp r c'"
      using assms(2,3,5) by simp
    then show "env (select_row (kp_rows kp) r) c'"
      by (simp add: active_def)
  qed
  moreover have "\<forall>r' c'. 0 \<le> r' \<and> r' < r \<and> c' < kp_cols kp
      \<longrightarrow> env (select_row (kp_rows kp) r') c'"
  proof (intro allI impI)
    fix r' c' assume h: "0 \<le> r' \<and> r' < r \<and> c' < kp_cols kp"
    then have "r' < kp_rows kp" using assms(2) by simp
    then have "\<not> active env kp r' c'"
      using assms(5) h by simp
    then show "env (select_row (kp_rows kp) r') c'"
      by (simp add: active_def)
  qed
  moreover have "\<not> env (select_row (kp_rows kp) r) c"
    using assms(4) by (simp add: active_def)
  ultimately have "scan_rows env (kp_rows kp) (kp_cols kp) 0 = Some (r, c)"
    using assms(2,3) by (intro scan_rows_first) simp_all
  then show ?thesis
    using assms(1-3) by (simp add: scanKeys_def key_at_in_range)
qed

lemma scanKeys_nothing:
  assumes "\<forall>r c. r < kp_rows kp \<and> c < kp_cols kp \<longrightarrow> \<not> active env kp r c"
  shows "fst (scanKeys env kp) = Some (CHR 0x00)"
proof -
  have "scan_rows env (kp_rows kp) (kp_cols kp) 0 = None"
    using assms by (intro scan_rows_none) (simp add: active_def)
  then show ?thesis
    by (simp add: scanKeys_def)
qed

lemma active_pressed:
  "r < kp_rows kp \<Longrightarrow> active (pressed ps) kp r c = ((r, c) \<in> set ps)"
  by (auto simp add: active_def pressed_def select_row_def list_ex_iff)

lemma board_keypad_fields:
  "kp_rows board_keypad = 4" "kp_cols board_keypad = 4" "kp_keys board_keypad = keys"
  "geometry_ok board_keypad"
  by (simp_all add: board_keypad_def Keypad_def ROWS_def COLS_def geometry_ok_def keys_def)

text \<open>
  C6.  \<open>scanKeys\<close> returns the key-map entry of the first active pair in row-major,
  column-ascending order: if \<open>(r, c)\<close> is active and no pair in an earlier row, or in
  row \<open>r\<close> at an earlier column, is active, the result is \<open>keys[r][c]\<close>, whatever
  other pairs are active.  With no active pair the result is the null symbol.  In both
  cases every row output is left HIGH.
\<close>

theorem scanKeys_first_active_pair:
  "(geometry_ok kp \<and> r < kp_rows kp \<and> c < kp_cols kp \<and> active env kp r c \<and>
    (\<forall>r' c'. r' < kp_rows kp \<and> c' < kp_cols kp \<and> (r' < r \<or> r' = r \<and> c' < c)
       \<longrightarrow> \<not> active env kp r' c')
    \<longrightarrow> fst (scanKeys env kp) = Some (kp_keys kp ! r ! c)) \<and>
   ((\<forall>r c. r < kp_rows kp \<and> c < kp_cols kp \<longrightarrow> \<not> active env kp r c)
    \<longrightarrow> fst (scanKeys env kp) = Some (CHR 0x00)) \<and>
   kp_rowPins (snd (scanKeys env kp)) = replicate (kp_rows kp) True"
proof (intro conjI impI)
  assume "geometry_ok kp \<and> r < kp_rows kp \<and> c < kp_cols kp \<and> active env kp r c \<and>
    (\<forall>r' c'. r' < kp_rows kp \<and> c' < kp_cols kp \<and> (r' < r \<or> r' = r \<and> c' < c)
       \<longrightarrow> \<not> active env kp r' c')"
  then show "fst (scanKeys env kp) = Some (kp_keys kp ! r ! c)"
    by (intro scanKeys_found) simp_all
next
  assume "\<forall>r c. r < kp_rows kp \<and> c < kp_cols kp \<longrightarrow> \<not> active env kp r c"
  then show "fst (scanKeys env kp) = Some (CHR 0x00)"
    by (rule scanKeys_nothing)
next
  show "kp_rowPins (snd (scanKeys env kp)) = replicate (kp_rows kp) True"
    by (rule scanKeys_rows_restored)
qed

theorem scanKeys_first_active_pair_witness:
  "geometry_ok board_keypad \<and>
   active (pressed [(2, 2), (1, 3), (1, 1)]) board_keypad 1 1 \<and>
   active (pressed [(2, 2), (1, 3), (1, 1)]) board_keypad 1 3 \<and>
   active (pressed [(2, 2), (1, 3), (1, 1)]) board_keypad 2 2 \<and>
   fst (scanKeys (pressed [(2, 2), (1, 3), (1, 1)]) board_keypad) = Some (CHR ''5'') \<and>
   fst (scanKeys (pressed []) board_keypad) = Some (CHR 0x00)"
proof -
  let ?env = "pressed [(2, 2), (1, 3), (1, 1)]"
  have first: "\<forall>r' c'. r' < kp_rows board_keypad \<and> c' < kp_cols board_keypad \<and>
      (r' < 1 \<or> r' = 1 \<and> c' < 1) \<longrightarrow> \<not> active ?env board_keypad r' c'"
    by (auto simp add: active_pressed board_keypad_fields)
  have none: "\<forall>r c. r < kp_rows board_keypad \<and> c < kp_cols board_keypad
      \<longrightarrow> \<not> active (pressed []) board_keypad r c"
    by (simp add: active_pressed)
  have a: "active ?env board_keypad 1 1" "active ?env board_keypad 1 3" "active ?env board_keypad 2 2"
    by (simp_all add: active_pressed board_keypad_fields)
  show ?thesis
    using scanKeys_first_active_pair [of board_keypad 1 1 ?env] first a
      scanKeys_first_active_pair [of board_keypad 0 0 "pressed []"] none
    by (simp add: board_keypad_fields keys_def)
qed

section \<open>Debouncing\<close>

lemma debounce_result:
  "fst (debounce key clk kp) = (if key \<noteq> CHR 0x00 \<and> key \<noteq> kp_lastKey kp then key else CHR 0x00)"
  "kp_lastKey (snd (debounce key clk kp)) = key"
  by (auto simp add: debounce_def)

lemma poll_edge_events: "poll scans kp = edge_events (kp_lastKey kp) (map fst scans)"
  by (induction scans arbitrary: kp) (auto simp add: debounce_result)

lemma edge_events_held: "edge_events k (replicate n k) = replicate n (CHR 0x00)"
  by (induction n) simp_all

lemma poll_held:
  assumes "k \<noteq> CHR 0x00" "k \<noteq> kp_lastKey kp"
  shows "poll (map (Pair k) (t # ts)) kp = k # replicate (length ts) (CHR 0x00)"
proof -
  have "map fst (map (Pair k) ts) = replicate (length ts) k"
    by (induction ts) simp_all
  then show ?thesis
    using assms by (simp add: poll_edge_events edge_events_held)
qed

lemma getKey_debounce:
  "fst (scanKeys env kp) = Some key \<Longrightarrow>
   getKey env clk kp = Some (debounce key clk (snd (scanKeys env kp))) \<and>
   kp_lastKey (snd (scanKeys env kp)) = kp_lastKey kp"
  by (cases "scanKeys env kp") (auto simp add: getKey_def scanKeys_def split: option.splits)

text \<open>
  C5.  \<open>getKey\<close> is edge-triggered.  It applies \<open>debounce\<close> to the scanned symbol,
  and the scan leaves the last-reported symbol alone.  Over any sequence of scans the
  symbols returned are those of the edge detector: a scanned symbol is returned exactly
  when it is not null and differs from the symbol of the scan before.  So a new symbol is
  returned on its first scan and recorded, every further scan of the same symbol returns
  null however long the key is held and whatever the debounce timer reads, and a null
  scan clears the last-reported symbol.
\<close>

theorem getKey_edge_triggered:
  "poll scans kp = edge_events (kp_lastKey kp) (map fst scans) \<and>
   (k \<noteq> CHR 0x00 \<and> k \<noteq> kp_lastKey kp \<longrightarrow>
      fst (debounce k clk kp) = k \<and> kp_lastKey (snd (debounce k clk kp)) = k \<and>
      poll (map (Pair k) (t # ts)) kp = k # replicate (length ts) (CHR 0x00)) \<and>
   fst (debounce (CHR 0x00) clk kp) = CHR 0x00 \<and>
   kp_lastKey (snd (debounce (CHR 0x00) clk kp)) = CHR 0x00 \<and>
   (fst (scanKeys env kp) = Some key \<longrightarrow>
      getKey env clk kp = Some (debounce key clk (snd (scanKeys env kp))) \<and>
      kp_lastKey (snd (scanKeys env kp)) = kp_lastKey kp)"
  using poll_edge_events [of scans kp] poll_held [of k kp t ts] getKey_debounce [of env kp key clk]
  by (simp add: debounce_result)

theorem getKey_edge_triggered_witness:
  "CHR ''5'' \<noteq> kp_lastKey board_keypad \<and>
   poll [(CHR ''5'', 0), (CHR ''5'', 100), (CHR ''5'', 200), (CHR ''5'', 300)] board_keypad
     = [CHR ''5'', CHR 0x00, CHR 0x00, CHR 0x00] \<and>
   fst (scanKeys (pressed [(1, 1)]) board_keypad) = Some (CHR ''5'') \<and>
   map_option fst (getKey (pressed [(1, 1)]) 0 board_keypad) = Some (CHR ''5'')"
proof -
  have s: "fst (scanKeys (pressed [(1, 1)]) board_keypad) = Some (CHR ''5'')"
    by (simp add: scanKeys_def scan_rows.simps scan_cols.simps board_keypad_def Keypad_def
        keys_def ROWS_def COLS_def pressed_def select_row_def key_at_def upt_rec)
  have l: "kp_lastKey board_keypad = CHR 0x00"
    by (simp add: board_keypad_def Keypad_def)
  show ?thesis
    using getKey_edge_triggered [of "[]" board_keypad "CHR ''5''" 0 0 "[100, 200, 300]"
        "pressed [(1, 1)]" "CHR ''5''"] s l
    by (simp add: debounce_result)
qed

section \<open>Order of expiry checks and key dispatch\<close>

lemma door_expired_state_fields:
  "isDoorOpen door_expired_state" "door_expired door_expired_state"
  "inputPassword door_expired_state = []" "\<not> isLockedOut door_expired_state"
  by (simp_all add: door_expired_state_def password_typed_def run_defs)

lemma lockout_expired_state_fields:
  "isLockedOut lockout_expired_state" "lockout_expired lockout_expired_state"
  "\<not> isDoorOpen lockout_expired_state" "failedAttempts lockout_expired_state = 3"
  by (simp_all add: lockout_expired_state_def run_defs)

text \<open>
  C7 as stated fails: in the iteration that finds the door's time expired, the key \<open>1\<close>
  is not ignored; the door is closed and the key then enters the buffer.
\<close>

theorem expired_door_key_counterexample:
  "isDoorOpen door_expired_state \<and> door_expired door_expired_state \<and>
   \<not> isDoorOpen (loop_body (CHR ''1'') 0 door_expired_state) \<and>
   inputPassword (loop_body (CHR ''1'') 0 door_expired_state) \<noteq> inputPassword door_expired_state"
  by (simp add: door_expired_state_fields loop_body_def sleep_for_def main_keys_def
      main_timers_fields lockout_expired_def MAX_PASSWORD_LENGTH_def)

lemma main_timers_door_expired:
  "door_expired s \<Longrightarrow> \<not> lockout_expired s \<Longrightarrow> main_timers s = updateLCD (closeLock s)"
  by (simp add: main_timers_def closeLock_def)

lemma main_timers_lockout_expired:
  "lockout_expired s \<Longrightarrow> \<not> isDoorOpen s \<Longrightarrow> main_timers s = resetSystem s"
  by (simp add: main_timers_def resetSystem_def door_expired_def)

lemma main_loop_reads:
  "getKey env (clock s) kp = Some (key, kp')
   \<Longrightarrow> main_loop env dt (s, kp) = Some (loop_body key dt s, kp')"
  by (simp add: main_loop_def loop_body_def main_timers_fields)

lemma digit_dispatch:
  assumes "\<not> isDoorOpen s" "CHR ''0'' \<le> key" "key \<le> CHR ''9''"
    "length (inputPassword s) < MAX_PASSWORD_LENGTH"
  shows "main_keys key s = updateLCD (s\<lparr>inputPassword := inputPassword s @ [key]\<rparr>)"
proof -
  have "key \<noteq> CHR 0x00" "key \<noteq> CHR ''#''" "key \<noteq> CHR ''*''"
    using assms(2) by auto
  then show ?thesis
    using assms by (simp add: main_keys_def)
qed

lemma door_expired_digit:
  assumes "door_expired s" "\<not> isLockedOut s" "CHR ''0'' \<le> key" "key \<le> CHR ''9''"
    "length (inputPassword s) < MAX_PASSWORD_LENGTH"
  shows "\<not> isDoorOpen (loop_body key dt s)" "\<not> lockControl (loop_body key dt s)"
    "inputPassword (loop_body key dt s) = inputPassword s @ [key]"
proof -
  let ?t = "main_timers s"
  have t: "\<not> isDoorOpen ?t" "\<not> lockControl ?t" "inputPassword ?t = inputPassword s"
    using assms(1,2) by (simp_all add: main_timers_fields lockout_expired_def)
  have "main_keys key ?t = updateLCD (?t\<lparr>inputPassword := inputPassword ?t @ [key]\<rparr>)"
    using t assms(3-5) by (intro digit_dispatch) simp_all
  then show "\<not> isDoorOpen (loop_body key dt s)" "\<not> lockControl (loop_body key dt s)"
    "inputPassword (loop_body key dt s) = inputPassword s @ [key]"
    using t by (simp_all add: loop_body_def sleep_for_def)
qed

lemma lockout_expired_digit:
  assumes "lockout_expired s" "\<not> isDoorOpen s" "CHR ''0'' \<le> key" "key \<le> CHR ''9''"
  shows "\<not> isLockedOut (loop_body key dt s)" "failedAttempts (loop_body key dt s) = 0"
    "inputPassword (loop_body key dt s) = [key]"
proof -
  let ?t = "main_timers s"
  have t: "\<not> isDoorOpen ?t" "\<not> isLockedOut ?t" "inputPassword ?t = []"
    "failedAttempts ?t = 0"
    using assms(1,2) by (simp_all add: main_timers_fields)
  have "main_keys key ?t = updateLCD (?t\<lparr>inputPassword := inputPassword ?t @ [key]\<rparr>)"
    using t assms(3,4) by (intro digit_dispatch) (simp_all add: MAX_PASSWORD_LENGTH_def)
  then show "\<not> isLockedOut (loop_body key dt s)" "failedAttempts (loop_body key dt s) = 0"
    "inputPassword (loop_body key dt s) = [key]"
    using t by (simp_all add: loop_body_def sleep_for_def)
qed

text \<open>
  C7, amended.  In every iteration the expiry checks are evaluated before the key is read
  and dispatched, so the key meets the state the checks leave.  When the door's time has
  expired, the door is closed first (flag cleared, relay released) and the key is then
  dispatched on the closed-door state, not ignored: a digit read in that iteration is
  appended to the buffer.  When the lockout has expired, the controller is reset first
  (flag, counter and buffer cleared) and the key is then dispatched on the reset state: a
  digit read in that iteration becomes the whole buffer.
\<close>

theorem timers_before_keys:
  "(door_expired s \<and> \<not> lockout_expired s \<longrightarrow>
      \<not> isDoorOpen (updateLCD (closeLock s)) \<and> \<not> lockControl (updateLCD (closeLock s)) \<and>
      loop_body key dt s = sleep_for (100 + int dt) (main_keys key (updateLCD (closeLock s)))) \<and>
   (lockout_expired s \<and> \<not> isDoorOpen s \<longrightarrow>
      \<not> isLockedOut (resetSystem s) \<and> failedAttempts (resetSystem s) = 0 \<and>
      inputPassword (resetSystem s) = [] \<and>
      loop_body key dt s = sleep_for (100 + int dt) (main_keys key (resetSystem s))) \<and>
   (door_expired s \<and> \<not> isLockedOut s \<and> getKey env (clock s) kp = Some (key, kp') \<and>
    CHR ''0'' \<le> key \<and> key \<le> CHR ''9'' \<and> length (inputPassword s) < MAX_PASSWORD_LENGTH \<longrightarrow>
      main_loop env dt (s, kp) = Some (loop_body key dt s, kp') \<and>
      \<not> isDoorOpen (loop_body key dt s) \<and> \<not> lockControl (loop_body key dt s) \<and>
      inputPassword (loop_body key dt s) = inputPassword s @ [key]) \<and>
   (lockout_expired s \<and> \<not> isDoorOpen s \<and> getKey env (clock s) kp = Some (key, kp') \<and>
    CHR ''0'' \<le> key \<and> key \<le> CHR ''9'' \<longrightarrow>
      main_loop env dt (s, kp) = Some (loop_body key dt s, kp') \<and>
      \<not> isLockedOut (loop_body key dt s) \<and> failedAttempts (loop_body key dt s) = 0 \<and>
      inputPassword (loop_body key dt s) = [key])"
proof (intro conjI impI)
  assume h: "door_expired s \<and> \<not> lockout_expired s"
  show "\<not> isDoorOpen (updateLCD (closeLock s))" "\<not> lockControl (updateLCD (closeLock s))"
    by (simp_all add: closeLock_def)
  show "loop_body key dt s = sleep_for (100 + int dt) (main_keys key (updateLCD (closeLock s)))"
    using h by (simp add: loop_body_def main_timers_door_expired)
next
  assume h: "lockout_expired s \<and> \<not> isDoorOpen s"
  show "\<not> isLockedOut (resetSystem s)" "failedAttempts (resetSystem s) = 0"
    "inputPassword (resetSystem s) = []"
    by (simp_all add: resetSystem_def)
  show "loop_body key dt s = sleep_for (100 + int dt) (main_keys key (resetSystem s))"
    using h by (simp add: loop_body_def main_timers_lockout_expired)
next
  assume h: "door_expired s \<and> \<not> isLockedOut s \<and> getKey env (clock s) kp = Some (key, kp') \<and>
    CHR ''0'' \<le> key \<and> key \<le> CHR ''9'' \<and> length (inputPassword s) < MAX_PASSWORD_LENGTH"
  then show "main_loop env dt (s, kp) = Some (loop_body key dt s, kp')"
    by (intro main_loop_reads) simp
  show "\<not> isDoorOpen (loop_body key dt s)" "\<not> lockControl (loop_body key dt s)"
    "inputPassword (loop_body key dt s) = inputPassword s @ [key]"
    using h by (simp_all add: door_expired_digit)
next
  assume h: "lockout_expired s \<and> \<not> isDoorOpen s \<and> getKey env (clock s) kp = Some (key, kp') \<and>
    CHR ''0'' \<le> key \<and> key \<le> CHR ''9''"
  then show "main_loop env dt (s, kp) = Some (loop_body key dt s, kp')"
    by (intro main_loop_reads) simp
  show "\<not> isLockedOut (loop_body key dt s)" "failedAttempts (loop_body key dt s) = 0"
    "inputPassword (loop_body key dt s) = [key]"
    using h by (simp_all add: lockout_expired_digit)
qed

lemma board_reads_1:
  "getKey (pressed [(0, 0)]) clk board_keypad
     = Some (CHR ''1'', snd (debounce (CHR ''1'') clk (snd (scanKeys (pressed [(0, 0)]) board_keypad))))"
proof -
  have s: "fst (scanKeys (pressed [(0, 0)]) board_keypad) = Some (CHR ''1'')"
    by (simp add: scanKeys_def scan_rows.simps scan_cols.simps board_keypad_def Keypad_def
        keys_def ROWS_def COLS_def pressed_def select_row_def key_at_def upt_rec)
  have l: "kp_lastKey board_keypad = CHR 0x00"
    by (simp add: board_keypad_def Keypad_def)
  have "fst (debounce (CHR ''1'') clk (snd (scanKeys (pressed [(0, 0)]) board_keypad))) = CHR ''1''"
    using getKey_debounce [OF s, of clk] l by (simp add: debounce_result)
  then have "debounce (CHR ''1'') clk (snd (scanKeys (pressed [(0, 0)]) board_keypad))
      = (CHR ''1'', snd (debounce (CHR ''1'') clk (snd (scanKeys (pressed [(0, 0)]) board_keypad))))"
    by (metis prod.collapse)
  then show ?thesis
    using getKey_debounce [OF s, of clk] by simp
qed

theorem timers_before_keys_witness:
  "door_expired door_expired_state \<and> \<not> isLockedOut door_expired_state \<and>
   map_option fst (main_loop (pressed [(0, 0)]) 0 (door_expired_state, board_keypad))
     = Some (loop_body (CHR ''1'') 0 door_expired_state) \<and>
   \<not> isDoorOpen (loop_body (CHR ''1'') 0 door_expired_state) \<and>
   \<not> lockControl (loop_body (CHR ''1'') 0 door_expired_state) \<and>
   inputPassword (loop_body (CHR ''1'') 0 door_expired_state) = ''1'' \<and>
   lockout_expired lockout_expired_state \<and> \<not> isDoorOpen lockout_expired_state \<and>
   map_option fst (main_loop (pressed [(0, 0)]) 0 (lockout_expired_state, board_keypad))
     = Some (loop_body (CHR ''1'') 0 lockout_expired_state) \<and>
   \<not> isLockedOut (loop_body (CHR ''1'') 0 lockout_expired_state) \<and>
   failedAttempts (loop_body (CHR ''1'') 0 lockout_expired_state) = 0 \<and>
   inputPassword (loop_body (CHR ''1'') 0 lockout_expired_state) = ''1''"
proof -
  have d: "CHR ''0'' \<le> CHR ''1''" "CHR ''1'' \<le> CHR ''9''"
    "length (inputPassword door_expired_state) < MAX_PASSWORD_LENGTH"
    by (simp_all add: door_expired_state_fields MAX_PASSWORD_LENGTH_def)
  have a: "main_loop (pressed [(0, 0)]) 0 (door_expired_state, board_keypad) =
      Some (loop_body (CHR ''1'') 0 door_expired_state,
            snd (debounce (CHR ''1'') (clock door_expired_state)
                   (snd (scanKeys (pressed [(0, 0)]) board_keypad)))) \<and>
      \<not> isDoorOpen (loop_body (CHR ''1'') 0 door_expired_state) \<and>
      \<not> lockControl (loop_body (CHR ''1'') 0 door_expired_state) \<and>
      inputPassword (loop_body (CHR ''1'') 0 door_expired_state) = ''1''"
    using timers_before_keys [of door_expired_state "CHR ''1''" 0 "pressed [(0, 0)]"
        board_keypad
        "snd (debounce (CHR ''1'') (clock door_expired_state)
                (snd (scanKeys (pressed [(0, 0)]) board_keypad)))",
        THEN conjunct2, THEN conjunct2, THEN conjunct1]
      board_reads_1 [of "clock door_expired_state"] door_expired_state_fields d
    by simp
  have b: "main_loop (pressed [(0, 0)]) 0 (lockout_expired_state, board_keypad) =
      Some (loop_body (CHR ''1'') 0 lockout_expired_state,
            snd (debounce (CHR ''1'') (clock lockout_expired_state)
                   (snd (scanKeys (pressed [(0, 0)]) board_keypad)))) \<and>
      \<not> isLockedOut (loop_body (CHR ''1'') 0 lockout_expired_state) \<and>
      failedAttempts (loop_body (CHR ''1'') 0 lockout_expired_state) = 0 \<and>
      inputPassword (loop_body (CHR ''1'') 0 lockout_expired_state) = ''1''"
    using timers_before_keys [of lockout_expired_state "CHR ''1''" 0 "pressed [(0, 0)]"
        board_keypad
        "snd (debounce (CHR ''1'') (clock lockout_expired_state)
                (snd (scanKeys (pressed [(0, 0)]) board_keypad)))",
        THEN conjunct2, THEN conjunct2, THEN conjunct2]
      board_reads_1 [of "clock lockout_expired_state"] lockout_expired_state_fields d
    by simp
  show ?thesis
    using a b door_expired_state_fields lockout_expired_state_fields by simp
qed

section \<open>Lockout after repeated failures\<close>

lemma run_append: "run (xs @ ys) s = run ys (run xs s)"
  by (induction xs arbitrary: s) simp_all

lemma checkPassword_clock: "clock s \<le> clock (checkPassword s)"
  by (simp add: checkPassword_def io_defs openLock_def Let_def)

lemma handleSpecialKeys_clock: "clock s \<le> clock (handleSpecialKeys key s)"
  by (simp add: handleSpecialKeys_def io_defs Let_def)

lemma main_keys_clock: "clock s \<le> clock (main_keys key s)"
  using checkPassword_clock [of s] handleSpecialKeys_clock [of s key]
  by (simp add: main_keys_def io_defs)

lemma step_clock: "clock s \<le> clock (step e s)"
proof (cases e)
  case (Iter key dt)
  have "clock s \<le> clock (main_keys key (main_timers s))"
    using main_keys_clock [of "main_timers s" key] by (simp add: main_timers_fields)
  then show ?thesis
    using Iter by (simp add: loop_body_def sleep_for_def)
next
  case Tick
  then show ?thesis by (simp add: ledFlashISR_def)
qed

lemma main_keys_locked_timer:
  "isLockedOut s \<Longrightarrow> lockoutTimer (main_keys key s) = lockoutTimer s"
  by (simp add: main_keys_def handleSpecialKeys_fields checkPassword_locked_fields io_defs)

lemma step_lockout_held: "lockout_held T s \<Longrightarrow> lockout_held T (step e s)"
proof -
  assume h: "lockout_held T s"
  show ?thesis
  proof (cases "T + LOCKOUT_TIME_MS \<le> clock s")
    case True
    then have "T + LOCKOUT_TIME_MS \<le> clock (step e s)"
      using step_clock [of s e] by simp
    then show ?thesis by (simp add: lockout_held_def)
  next
    case False
    then have l: "isLockedOut s"
      and t: "lockoutTimer s = \<lparr>t_running = True, t_start = T, t_time = 0\<rparr>"
      using h by (simp_all add: lockout_held_def)
    have ne: "\<not> lockout_expired s"
      using False l t by (simp add: lockout_expired_def read_ms_def slicetime_def)
    show ?thesis
    proof (cases e)
      case (Iter key dt)
      let ?m = "main_timers s"
      have m: "isLockedOut ?m" "lockoutTimer ?m = lockoutTimer s"
        using l ne by (simp_all add: main_timers_fields)
      have "isLockedOut (main_keys key ?m)" "lockoutTimer (main_keys key ?m) = lockoutTimer s"
        using m main_keys_locked_mode [OF m(1), of key] main_keys_locked_timer [OF m(1), of key]
        by simp_all
      then show ?thesis
        using Iter t by (simp add: loop_body_def sleep_for_def lockout_held_def)
    next
      case Tick
      then show ?thesis
        using l t by (simp add: ledFlashISR_def lockout_held_def)
    qed
  qed
qed

lemma run_lockout_held: "lockout_held T s \<Longrightarrow> lockout_held T (run evs s)"
  by (induction evs arbitrary: s) (simp_all add: step_lockout_held del: step.simps)

lemma timer_restart:
  "timer_start (timer_reset t clk) clk = \<lparr>t_running = True, t_start = clk, t_time = 0\<rparr>"
  by (cases t) (simp add: timer_start_def timer_reset_def)

lemma checkPassword_locks:
  assumes "\<not> isLockedOut s" "inputPassword s \<noteq> PASSWORD"
    "MAX_FAILED_ATTEMPTS \<le> int32 (failedAttempts s + 1)"
  shows "lockoutTimer (checkPassword s) = \<lparr>t_running = True, t_start = clock s + 2000, t_time = 0\<rparr>"
  using assms by (simp add: checkPassword_def io_defs Let_def timer_restart)

lemma main_timers_idle: "\<not> isLockedOut s \<Longrightarrow> \<not> isDoorOpen s \<Longrightarrow> main_timers s = s"
  by (simp add: main_timers_def lockout_expired_def door_expired_def)

lemma main_keys_neutral:
  assumes "key \<noteq> CHR ''C''" "key \<noteq> CHR ''#'' \<or> inputPassword s = []"
  shows "isLockedOut (main_keys key s) = isLockedOut s"
    "isDoorOpen (main_keys key s) = isDoorOpen s"
    "failedAttempts (main_keys key s) = failedAttempts s"
  using assms
  by (cases "key = CHR ''#''";
      simp add: main_keys_def handleSpecialKeys_fields io_defs)+

lemma neutral_step:
  assumes "\<not> isLockedOut s" "\<not> isDoorOpen s" "neutral e s"
  shows "\<not> isLockedOut (step e s)" "\<not> isDoorOpen (step e s)"
    "failedAttempts (step e s) = failedAttempts s"
proof -
  have "\<not> isLockedOut (step e s) \<and> \<not> isDoorOpen (step e s) \<and>
        failedAttempts (step e s) = failedAttempts s"
  proof (cases e)
    case (Iter key dt)
    then have k: "key \<noteq> CHR ''C''" "key \<noteq> CHR ''#'' \<or> inputPassword s = []"
      using assms(3) by simp_all
    show ?thesis
      using Iter assms(1,2) main_keys_neutral [OF k]
      by (simp add: loop_body_def main_timers_idle sleep_for_def)
  next
    case Tick
    then show ?thesis
      using assms(1,2) by (simp add: ledFlashISR_def)
  qed
  then show "\<not> isLockedOut (step e s)" "\<not> isDoorOpen (step e s)"
    "failedAttempts (step e s) = failedAttempts s"
    by simp_all
qed

lemma quiet_run:
  "\<not> isLockedOut s \<Longrightarrow> \<not> isDoorOpen s \<Longrightarrow> quiet gap s
   \<Longrightarrow> \<not> isLockedOut (run gap s) \<and> \<not> isDoorOpen (run gap s) \<and>
       failedAttempts (run gap s) = failedAttempts s"
proof (induction gap arbitrary: s)
  case Nil
  then show ?case by simp
next
  case (Cons e gap)
  have n: "neutral e s" and q: "quiet gap (step e s)"
    using Cons.prems(3) by simp_all
  note st = neutral_step [OF Cons.prems(1,2) n]
  from Cons.IH [OF st(1,2) q] show ?case
    using st(3) by (simp del: step.simps)
qed

lemma wrong_step:
  assumes "\<not> isLockedOut s" "\<not> isDoorOpen s" "inputPassword s \<noteq> []"
    "inputPassword s \<noteq> PASSWORD" "0 \<le> failedAttempts s" "failedAttempts s < 2147483647"
  shows "failedAttempts (loop_body (CHR ''#'') dt s) = failedAttempts s + 1"
    "isLockedOut (loop_body (CHR ''#'') dt s) = (MAX_FAILED_ATTEMPTS \<le> failedAttempts s + 1)"
    "\<not> isDoorOpen (loop_body (CHR ''#'') dt s)"
    "inputPassword (loop_body (CHR ''#'') dt s) = []"
    "MAX_FAILED_ATTEMPTS \<le> failedAttempts s + 1 \<Longrightarrow>
       lockoutTimer (loop_body (CHR ''#'') dt s)
         = \<lparr>t_running = True, t_start = clock s + 2000, t_time = 0\<rparr>"
proof -
  have eq: "loop_body (CHR ''#'') dt s = sleep_for (100 + int dt) (checkPassword s)"
    using assms(1-3) by (simp add: loop_body_def main_timers_idle main_keys_def)
  have i: "int32 (failedAttempts s + 1) = failedAttempts s + 1"
    using assms(5,6) by (intro int32_in_range) simp_all
  note d = checkPassword_denied [OF assms(1) assms(4)]
  show "failedAttempts (loop_body (CHR ''#'') dt s) = failedAttempts s + 1"
    "isLockedOut (loop_body (CHR ''#'') dt s) = (MAX_FAILED_ATTEMPTS \<le> failedAttempts s + 1)"
    "\<not> isDoorOpen (loop_body (CHR ''#'') dt s)"
    "inputPassword (loop_body (CHR ''#'') dt s) = []"
    using d assms(2) by (simp_all add: eq sleep_for_def i)
  show "lockoutTimer (loop_body (CHR ''#'') dt s)
         = \<lparr>t_running = True, t_start = clock s + 2000, t_time = 0\<rparr>"
    if "MAX_FAILED_ATTEMPTS \<le> failedAttempts s + 1"
    using checkPassword_locks [OF assms(1) assms(4)] that i by (simp add: eq sleep_for_def)
qed

lemma failed_round:
  assumes "entering n s" "quiet gap s" "inputPassword (run gap s) \<noteq> []"
    "inputPassword (run gap s) \<noteq> PASSWORD" "0 \<le> n" "n + 1 < MAX_FAILED_ATTEMPTS"
  shows "entering (n + 1) (run (submission gap dt) s)"
proof -
  have e: "\<not> isLockedOut s" "\<not> isDoorOpen s" "failedAttempts s = n"
    using assms(1) by (simp_all add: entering_def)
  have q: "\<not> isLockedOut (run gap s)" "\<not> isDoorOpen (run gap s)"
    "failedAttempts (run gap s) = n"
    using quiet_run [OF e(1,2) assms(2)] e(3) by simp_all
  have r: "0 \<le> failedAttempts (run gap s)" "failedAttempts (run gap s) < 2147483647"
    using q(3) assms(5,6) by (simp_all add: MAX_FAILED_ATTEMPTS_def)
  note w = wrong_step [OF q(1,2) assms(3,4) r, of dt]
  show ?thesis
    using w(1-3) q(3) assms(6) by (simp add: submission_def run_append entering_def)
qed

lemma failing_append:
  "failing (xs @ ys) s = (failing xs s \<and> failing ys (run (failures xs) s))"
proof (induction xs arbitrary: s)
  case Nil
  then show ?case by (simp add: failures_def)
next
  case (Cons w xs)
  obtain gap dt where w: "w = (gap, dt)" by (cases w)
  show ?case
    using Cons.IH [of "run (submission gap dt) s"] w
    by (auto simp add: failures_def run_append)
qed

lemma failed_rounds:
  "entering n s \<Longrightarrow> failing ws s \<Longrightarrow> 0 \<le> n
   \<Longrightarrow> n + int (length ws) < MAX_FAILED_ATTEMPTS
   \<Longrightarrow> entering (n + int (length ws)) (run (failures ws) s)"
proof (induction ws arbitrary: s n)
  case Nil
  then show ?case by (simp add: failures_def)
next
  case (Cons w ws)
  obtain gap dt where w: "w = (gap, dt)" by (cases w)
  have f: "quiet gap s" "inputPassword (run gap s) \<noteq> []" "inputPassword (run gap s) \<noteq> PASSWORD"
    "failing ws (run (submission gap dt) s)"
    using Cons.prems(2) w by simp_all
  have "n + 1 < MAX_FAILED_ATTEMPTS"
    using Cons.prems(4) by simp
  then have "entering (n + 1) (run (submission gap dt) s)"
    using Cons.prems(1,3) f(1-3) by (intro failed_round) simp_all
  then have "entering (n + 1 + int (length ws)) (run (failures ws) (run (submission gap dt) s))"
    using Cons.prems(3,4) f(4) by (intro Cons.IH) simp_all
  then show ?case
    using w by (simp add: failures_def run_append algebra_simps)
qed

lemma last_round:
  assumes "entering (MAX_FAILED_ATTEMPTS - 1) s" "quiet gap s"
    "inputPassword (run gap s) \<noteq> []" "inputPassword (run gap s) \<noteq> PASSWORD"
  shows "\<not> isLockedOut (run (butlast (submission gap dt)) s)"
    "isLockedOut (run (submission gap dt) s)"
    "failedAttempts (run (submission gap dt) s) = MAX_FAILED_ATTEMPTS"
    "lockout_held (clock (run (butlast (submission gap dt)) s) + 2000) (run (submission gap dt) s)"
proof -
  have e: "\<not> isLockedOut s" "\<not> isDoorOpen s" "failedAttempts s = MAX_FAILED_ATTEMPTS - 1"
    using assms(1) by (simp_all add: entering_def)
  have q: "\<not> isLockedOut (run gap s)" "\<not> isDoorOpen (run gap s)"
    "failedAttempts (run gap s) = MAX_FAILED_ATTEMPTS - 1"
    using quiet_run [OF e(1,2) assms(2)] e(3) by simp_all
  have r: "0 \<le> failedAttempts (run gap s)" "failedAttempts (run gap s) < 2147483647"
    using q(3) by (simp_all add: MAX_FAILED_ATTEMPTS_def)
  note w = wrong_step [OF q(1,2) assms(3,4) r, of dt]
  have b: "butlast (submission gap dt) = gap"
    by (simp add: submission_def)
  show "\<not> isLockedOut (run (butlast (submission gap dt)) s)"
    using q(1) by (simp add: b)
  show "isLockedOut (run (submission gap dt) s)"
    "failedAttempts (run (submission gap dt) s) = MAX_FAILED_ATTEMPTS"
    using w(1,2) q(3) by (simp_all add: submission_def run_append)
  show "lockout_held (clock (run (butlast (submission gap dt)) s) + 2000) (run (submission gap dt) s)"
    using w(2,5) q(3) by (simp add: b lockout_held_def) (simp add: submission_def run_append)
qed

lemma max_failure_locks:
  assumes "\<not> isLockedOut s" "\<not> isDoorOpen s" "inputPassword s \<noteq> []"
    "inputPassword s \<noteq> PASSWORD" "MAX_FAILED_ATTEMPTS \<le> failedAttempts s + 1"
    "failedAttempts s < 2147483647"
  shows "isLockedOut (loop_body (CHR ''#'') dt s)"
    "clock (run evs (loop_body (CHR ''#'') dt s)) < clock s + 2000 + LOCKOUT_TIME_MS
     \<Longrightarrow> isLockedOut (run evs (loop_body (CHR ''#'') dt s))"
proof -
  have "0 \<le> failedAttempts s"
    using assms(5) by (simp add: MAX_FAILED_ATTEMPTS_def)
  note w = wrong_step [OF assms(1-4) this assms(6), of dt]
  show l: "isLockedOut (loop_body (CHR ''#'') dt s)"
    using w(2) assms(5) by simp
  have "lockout_held (clock s + 2000) (loop_body (CHR ''#'') dt s)"
    using l w(5) [OF assms(5)] by (simp add: lockout_held_def)
  then have "lockout_held (clock s + 2000) (run evs (loop_body (CHR ''#'') dt s))"
    by (rule run_lockout_held)
  then show "isLockedOut (run evs (loop_body (CHR ''#'') dt s))"
    if "clock (run evs (loop_body (CHR ''#'') dt s)) < clock s + 2000 + LOCKOUT_TIME_MS"
    using that by (simp add: lockout_held_def)
qed

lemma max_failures_lock:
  assumes "\<not> isLockedOut s" "\<not> isDoorOpen s" "0 \<le> failedAttempts s"
    and "failedAttempts s + int (length ws) = MAX_FAILED_ATTEMPTS" "ws \<noteq> []"
    and "failing ws s"
  shows "\<not> isLockedOut (run (butlast (failures ws)) s) \<and>
         isLockedOut (run (failures ws) s) \<and>
         failedAttempts (run (failures ws) s) = MAX_FAILED_ATTEMPTS \<and>
         (\<forall>evs. clock (run evs (run (failures ws) s))
                    < clock (run (butlast (failures ws)) s) + 2000 + LOCKOUT_TIME_MS
                  \<longrightarrow> isLockedOut (run evs (run (failures ws) s)))"
proof -
  obtain ws' w where ws: "ws = ws' @ [w]"
    using assms(5) by (cases ws rule: rev_cases) simp_all
  obtain gap dt where w: "w = (gap, dt)" by (cases w)
  let ?s1 = "run (failures ws') s"
  have e0: "entering (failedAttempts s) s"
    using assms(1,2) by (simp add: entering_def)
  have fa: "failing ws' s" and fl: "failing [(gap, dt)] ?s1"
    using assms(6) ws w by (simp_all add: failing_append)
  have "entering (failedAttempts s + int (length ws')) ?s1"
    using e0 fa assms(3,4) ws by (intro failed_rounds) simp_all
  moreover have "failedAttempts s + int (length ws') = MAX_FAILED_ATTEMPTS - 1"
    using assms(4) ws by simp
  ultimately have e1: "entering (MAX_FAILED_ATTEMPTS - 1) ?s1"
    by simp
  have g: "quiet gap ?s1" "inputPassword (run gap ?s1) \<noteq> []"
    "inputPassword (run gap ?s1) \<noteq> PASSWORD"
    using fl by simp_all
  have f: "failures ws = failures ws' @ submission gap dt"
    using ws w by (simp add: failures_def)
  have "submission gap dt \<noteq> []"
    by (simp add: submission_def)
  then have "butlast (failures ws) = failures ws' @ butlast (submission gap dt)"
    by (simp add: f butlast_append)
  then have pre: "run (butlast (failures ws)) s = run (butlast (submission gap dt)) ?s1"
    by (simp add: run_append)
  have post: "run (failures ws) s = run (submission gap dt) ?s1"
    by (simp add: f run_append)
  note l = last_round [OF e1 g, of dt]
  have held: "lockout_held (clock (run (butlast (failures ws)) s) + 2000)
                (run evs (run (failures ws) s))" for evs
    unfolding pre post using l(4) by (rule run_lockout_held)
  have "isLockedOut (run evs (run (failures ws) s))"
    if "clock (run evs (run (failures ws) s))
          < clock (run (butlast (failures ws)) s) + 2000 + LOCKOUT_TIME_MS" for evs
    using held [of evs] that by (simp add: lockout_held_def)
  then show ?thesis
    using l(1-3) unfolding pre post by simp
qed

text \<open>
  C3 as stated fails.  From boot, three wrong submissions with \<open>C\<close> pressed before the
  third leave the controller not locked out, with one failure counted: \<open>C\<close> resets the
  counter.  Nor do three \<open>#\<close> on the empty buffer, which is not the credential, lock it
  out: they are rejected and not counted.
\<close>

theorem reset_between_failures_counterexample:
  "\<not> isLockedOut (run reset_between_failures main_init) \<and>
   failedAttempts (run reset_between_failures main_init) = 1 \<and>
   \<not> isLockedOut (run empty_submissions main_init) \<and>
   failedAttempts (run empty_submissions main_init) = 0"
  by (simp add: reset_between_failures_def empty_submissions_def run_defs)

text \<open>
  C3, amended.  \<open>MAX_FAILED_ATTEMPTS\<close> consecutive submissions of a buffer that is
  neither empty nor the credential, with no \<open>C\<close> pressed between them, lock the
  controller out, and the lockout lasts.  Start where a password is being entered, with
  \<open>c\<close> failures counted, and let \<open>MAX_FAILED_ATTEMPTS - c\<close> failing submissions follow,
  with any quiet events before each \<open>#\<close> (digits, \<open>*\<close>, \<open>A\<close>, \<open>B\<close>, \<open>D\<close>, the null
  symbol, a rejected \<open>#\<close>, ticker firings, any delays).  Then the controller is locked out,
  which it was not before the last \<open>#\<close>; and whatever events follow (any keys, \<open>C\<close>
  included, any delays, ticker firings), the locked-out flag is set in every state whose
  clock is less than \<open>LOCKOUT_TIME_MS\<close> past the moment the lockout timer was started,
  which is 2000 ms after the last \<open>#\<close> was read.  The same holds for a single failing
  submission in any state whose counter is at least one short of the maximum and below
  the largest \<open>int\<close>.
\<close>

theorem lockout_after_max_failures:
  "(\<not> isLockedOut s \<and> \<not> isDoorOpen s \<and> 0 \<le> failedAttempts s \<and>
    failedAttempts s + int (length ws) = MAX_FAILED_ATTEMPTS \<and> ws \<noteq> [] \<and> failing ws s \<longrightarrow>
      \<not> isLockedOut (run (butlast (failures ws)) s) \<and>
      isLockedOut (run (failures ws) s) \<and>
      failedAttempts (run (failures ws) s) = MAX_FAILED_ATTEMPTS \<and>
      (\<forall>evs. clock (run evs (run (failures ws) s))
                 < clock (run (butlast (failures ws)) s) + 2000 + LOCKOUT_TIME_MS
               \<longrightarrow> isLockedOut (run evs (run (failures ws) s)))) \<and>
   (\<not> isLockedOut s \<and> \<not> isDoorOpen s \<and> inputPassword s \<noteq> [] \<and> inputPassword s \<noteq> PASSWORD \<and>
    MAX_FAILED_ATTEMPTS \<le> failedAttempts s + 1 \<and> failedAttempts s < 2147483647 \<longrightarrow>
      isLockedOut (loop_body (CHR ''#'') dt s) \<and>
      (\<forall>evs. clock (run evs (loop_body (CHR ''#'') dt s)) < clock s + 2000 + LOCKOUT_TIME_MS
               \<longrightarrow> isLockedOut (run evs (loop_body (CHR ''#'') dt s))))"
proof (intro conjI impI)
  assume h: "\<not> isLockedOut s \<and> \<not> isDoorOpen s \<and> 0 \<le> failedAttempts s \<and>
    failedAttempts s + int (length ws) = MAX_FAILED_ATTEMPTS \<and> ws \<noteq> [] \<and> failing ws s"
  then have r: "\<not> isLockedOut (run (butlast (failures ws)) s) \<and>
      isLockedOut (run (failures ws) s) \<and>
      failedAttempts (run (failures ws) s) = MAX_FAILED_ATTEMPTS \<and>
      (\<forall>evs. clock (run evs (run (failures ws) s))
                 < clock (run (butlast (failures ws)) s) + 2000 + LOCKOUT_TIME_MS
               \<longrightarrow> isLockedOut (run evs (run (failures ws) s)))"
    by (intro max_failures_lock) simp_all
  from r show "\<not> isLockedOut (run (butlast (failures ws)) s)" by simp
  from r show "isLockedOut (run (failures ws) s)" by simp
  from r show "failedAttempts (run (failures ws) s) = MAX_FAILED_ATTEMPTS" by simp
  from r show "\<forall>evs. clock (run evs (run (failures ws) s))
                 < clock (run (butlast (failures ws)) s) + 2000 + LOCKOUT_TIME_MS
               \<longrightarrow> isLockedOut (run evs (run (failures ws) s))" by simp
next
  assume h: "\<not> isLockedOut s \<and> \<not> isDoorOpen s \<and> inputPassword s \<noteq> [] \<and>
    inputPassword s \<noteq> PASSWORD \<and> MAX_FAILED_ATTEMPTS \<le> failedAttempts s + 1 \<and>
    failedAttempts s < 2147483647"
  then show "isLockedOut (loop_body (CHR ''#'') dt s)"
    by (intro max_failure_locks) simp_all
  show "\<forall>evs. clock (run evs (loop_body (CHR ''#'') dt s)) < clock s + 2000 + LOCKOUT_TIME_MS
               \<longrightarrow> isLockedOut (run evs (loop_body (CHR ''#'') dt s))"
    using h by (intro allI impI max_failure_locks) simp_all
qed

lemma failures_three_wrong_entries:
  "failures three_wrong_entries =
     [Iter (CHR ''9'') 0, Iter (CHR 0x00) 0, Iter (CHR ''*'') 0, Iter (CHR ''8'') 0,
      Iter (CHR ''#'') 0, Iter (CHR ''A'') 0, Iter (CHR ''9'') 0, Iter (CHR ''#'') 0,
      Tick, Iter (CHR ''9'') 0, Iter (CHR ''#'') 0]"
  by (simp add: failures_def three_wrong_entries_def submission_def)

theorem lockout_after_max_failures_witness:
  "\<not> isLockedOut main_init \<and> \<not> isDoorOpen main_init \<and> failedAttempts main_init = 0 \<and>
   int (length three_wrong_entries) = MAX_FAILED_ATTEMPTS \<and>
   failing three_wrong_entries main_init \<and>
   isLockedOut (run (failures three_wrong_entries) main_init) \<and>
   clock (run keys_during_lockout (run (failures three_wrong_entries) main_init))
     < clock (run (butlast (failures three_wrong_entries)) main_init) + 2000 + LOCKOUT_TIME_MS \<and>
   isLockedOut (run keys_during_lockout (run (failures three_wrong_entries) main_init)) \<and>
   inputPassword (run (butlast three_failures) main_init) = ''9'' \<and>
   failedAttempts (run (butlast three_failures) main_init) = 2 \<and>
   isLockedOut (loop_body (CHR ''#'') 0 (run (butlast three_failures) main_init))"
proof -
  have h: "\<not> isLockedOut main_init" "\<not> isDoorOpen main_init" "failedAttempts main_init = 0"
    by (simp_all add: main_init_def globals_init_def io_defs lock_defs Let_def)
  have n: "int (length three_wrong_entries) = MAX_FAILED_ATTEMPTS" "three_wrong_entries \<noteq> []"
    by (simp_all add: three_wrong_entries_def MAX_FAILED_ATTEMPTS_def)
  have w: "failing three_wrong_entries main_init"
    by (simp add: three_wrong_entries_def submission_def run_defs)
  have c: "clock (run keys_during_lockout (run (failures three_wrong_entries) main_init))
     < clock (run (butlast (failures three_wrong_entries)) main_init) + 2000 + LOCKOUT_TIME_MS"
    by (simp add: failures_three_wrong_entries keys_during_lockout_def run_defs)
  have p: "\<not> isLockedOut (run (butlast three_failures) main_init)"
    "\<not> isDoorOpen (run (butlast three_failures) main_init)"
    "inputPassword (run (butlast three_failures) main_init) = ''9''"
    "failedAttempts (run (butlast three_failures) main_init) = 2"
    by (simp_all add: three_failures_def run_defs)
  have q: "inputPassword (run (butlast three_failures) main_init) \<noteq> [] \<and>
    inputPassword (run (butlast three_failures) main_init) \<noteq> PASSWORD \<and>
    MAX_FAILED_ATTEMPTS \<le> failedAttempts (run (butlast three_failures) main_init) + 1 \<and>
    failedAttempts (run (butlast three_failures) main_init) < 2147483647"
    by (simp add: p PASSWORD_def MAX_FAILED_ATTEMPTS_def)
  show ?thesis
    using lockout_after_max_failures [of main_init three_wrong_entries 0]
      lockout_after_max_failures [of "run (butlast three_failures) main_init" "[]" 0]
      h n w c p q by simp
qed

section \<open>Range of the attempt counter\<close>

text \<open>
  In the states reached from boot the counter stays between 0 and
  \<open>MAX_FAILED_ATTEMPTS\<close>, so the increment of the C++ \<open>int\<close> never wraps there.
\<close>

lemma checkPassword_attempts_ok: "attempts_ok s \<Longrightarrow> attempts_ok (checkPassword s)"
  by (cases "isLockedOut s"; cases "inputPassword s = PASSWORD")
     (auto simp add: attempts_ok_def checkPassword_granted checkPassword_denied
        checkPassword_locked_fields MAX_FAILED_ATTEMPTS_def int32_in_range)

lemma main_keys_attempts_ok: "attempts_ok s \<Longrightarrow> attempts_ok (main_keys key s)"
  using checkPassword_attempts_ok [of s]
  by (simp add: main_keys_def)
     (simp add: attempts_ok_def handleSpecialKeys_fields io_defs MAX_FAILED_ATTEMPTS_def)

lemma main_timers_attempts_ok: "attempts_ok s \<Longrightarrow> attempts_ok (main_timers s)"
  by (simp add: attempts_ok_def main_timers_fields MAX_FAILED_ATTEMPTS_def)

lemma step_attempts_ok: "attempts_ok s \<Longrightarrow> attempts_ok (step e s)"
proof (cases e)
  case (Iter key dt)
  assume "attempts_ok s"
  then have "attempts_ok (main_keys key (main_timers s))"
    by (intro main_keys_attempts_ok main_timers_attempts_ok)
  then show ?thesis
    using Iter by (simp add: loop_body_def sleep_for_def attempts_ok_def)
next
  case Tick
  assume "attempts_ok s"
  then show ?thesis
    using Tick by (simp add: ledFlashISR_def attempts_ok_def)
qed

lemma run_attempts_ok: "attempts_ok s \<Longrightarrow> attempts_ok (run evs s)"
  by (induction evs arbitrary: s) (simp_all add: step_attempts_ok del: step.simps)

lemma run_attempts_bounded:
  "0 \<le> failedAttempts (run evs main_init) \<and>
   failedAttempts (run evs main_init) \<le> MAX_FAILED_ATTEMPTS"
proof -
  have "attempts_ok main_init"
    by (simp add: attempts_ok_def main_init_def globals_init_def io_defs lock_defs Let_def
        MAX_FAILED_ATTEMPTS_def)
  then have "attempts_ok (run evs main_init)"
    by (rule run_attempts_ok)
  then show ?thesis
    by (simp add: attempts_ok_def)
qed

end
